theory Spec2Isabelle
  imports Main
begin

section \<open>ZNMethod: the collector's bookkeeping for compiled methods\<close>

text \<open>
  A shallow embedding of \<^verbatim>\<open>src/hotspot/share/gc/z/zNMethod.cpp\<close>.

  Pointers to compiled methods (\<^verbatim>\<open>nmethod*\<close>), to oop slots (\<^verbatim>\<open>oop*\<close>) and oops
  themselves are natural numbers; slot addresses count in units of one slot, so that
  \<^verbatim>\<open>p++\<close> on an \<^verbatim>\<open>oop*\<close> is \<open>Suc p\<close>. The null oop is \<open>0\<close>.

  A \<^verbatim>\<open>ZNMethodData\<close> is reachable only through the \<^verbatim>\<open>_gc_data\<close> slot of its nmethod
  and a \<^verbatim>\<open>ZNMethodDataOops\<close> only through the \<^verbatim>\<open>_oops\<close> field of its record, so both
  are stored by value (an \<open>option\<close>, \<open>None\<close> being the null pointer); the oop slots, which
  the oops table and the immediate list may both point to, live in an explicit store.

  Every call that leaves the file (the registration table, the barrier set, the locker,
  the nmethod's own operations, allocation and release of the GC data) appends an event
  to the trace of the state, with the arguments the source passes, so that what the code
  does to its collaborators, and in which order, can be stated.

  Not modelled: \<^verbatim>\<open>log_register\<close> and \<^verbatim>\<open>log_unregister\<close> (they only print),
  \<^verbatim>\<open>ResourceMark\<close>, the \<^verbatim>\<open>ICRefillVerifier\<close> and its mark (verification aids
  without effect on the state below), and \<^verbatim>\<open>oops_do\<close> with its begin and end, which
  only hand \<^verbatim>\<open>nmethod_oops_do\<close> and the table's bracket on.
\<close>

subsection \<open>Data\<close>

type_synonym nm_ptr = nat
type_synonym addr = nat
type_synonym oop = nat

definition NULL_oop :: oop where
  "NULL_oop = 0"

text \<open>
  \<^verbatim>\<open>relocInfo::relocType\<close> is declared in \<^verbatim>\<open>code/relocInfo.hpp\<close>; the file tests for
  \<^verbatim>\<open>oop_type\<close> only, every other type is \<open>other_type\<close>.
\<close>

datatype relocType = oop_type | other_type

text \<open>
  One position of the \<^verbatim>\<open>RelocIterator\<close>: its type and, for an oop relocation, what
  \<^verbatim>\<open>oop_is_immediate()\<close>, \<^verbatim>\<open>oop_value()\<close> and \<^verbatim>\<open>oop_addr()\<close> return there.
\<close>

record relocation =
  reloc_type :: relocType
  oop_is_immediate :: bool
  oop_value :: oop
  oop_addr :: addr

record ZNMethodDataOops =
  immediates :: "addr list"
  has_non_immediates :: bool

text \<open>The lock embedded in the record that was created for an nmethod.\<close>

datatype ZReentrantLock = Lock_of nm_ptr

record ZNMethodData =
  lock :: ZReentrantLock
  data_oops :: "ZNMethodDataOops option"

record nmethod =
  relocs :: "relocation list"
  oops_begin :: addr
  oops_end :: addr
  nm_gc_data :: "ZNMethodData option"
  is_alive :: bool
  is_unloading :: bool
  armed :: bool

datatype event =
    Do_oop addr
  | Fix_oop_relocations nm_ptr
  | ZNMethodData_created nm_ptr
  | ZNMethodData_destroyed "ZNMethodData option"
  | ZNMethodDataOops_created ZNMethodDataOops
  | ZNMethodDataOops_destroyed "ZNMethodDataOops option"
  | Table_register nm_ptr
  | Table_unregister nm_ptr
  | Wait_until_iteration_done
  | Nmethods_do_begin
  | Nmethods_do_end
  | BarrierSetNMethod_disarm nm_ptr
  | ZLocker_lock "ZReentrantLock option"
  | ZLocker_unlock "ZReentrantLock option"
  | Flush_dependencies nm_ptr bool
  | Unlink_from_method nm_ptr bool
  | Unload_nmethod_caches nm_ptr bool bool
  | Make_unloaded nm_ptr
  | STS_leave
  | STS_join
  | Refill_ic_stubs

text \<open>
  The state: the nmethods, the store of oop slots, the registration table (the entries
  in the order an iteration hands them out), the state of the inline-cache machinery
  (owned by the runtime, of a type \<open>'x\<close> this file knows nothing about) and the trace.
\<close>

record 'x state =
  nmethods :: "nm_ptr \<Rightarrow> nmethod"
  mem :: "addr \<Rightarrow> oop"
  table :: "nm_ptr list"
  ic_state :: 'x
  trace :: "event list"

type_synonym OopClosure = "addr \<Rightarrow> (addr \<Rightarrow> oop) \<Rightarrow> (addr \<Rightarrow> oop)"

text \<open>
  What the file takes from the rest of the runtime, as parameters:
  \<^verbatim>\<open>Universe::non_oop_word()\<close>; whether \<^verbatim>\<open>barrier_set_nmethod()\<close> is non-null;
  \<^verbatim>\<open>ZNMethodOopClosure::do_oop\<close>, the healing closure of the unlink pass;
  what \<^verbatim>\<open>nmethod::fix_oop_relocations\<close> does to the oop slots;
  \<^verbatim>\<open>nmethod::unload_nmethod_caches\<close>, which may fail, and
  \<^verbatim>\<open>InlineCacheBuffer::refill_ic_stubs\<close>, on the inline-cache state.
\<close>

record 'x runtime =
  non_oop_word :: oop
  has_barrier_set_nmethod :: bool
  heal_oop :: OopClosure
  fix_relocations :: "nm_ptr \<Rightarrow> (addr \<Rightarrow> oop) \<Rightarrow> (addr \<Rightarrow> oop)"
  unload_caches :: "nm_ptr \<Rightarrow> bool \<Rightarrow> 'x \<Rightarrow> bool \<times> 'x"
  refill_stubs :: "'x \<Rightarrow> 'x"

datatype error = Null_pointer | Assertion_failed

definition emit :: "event \<Rightarrow> 'x state \<Rightarrow> 'x state" where
  "emit ev s = s\<lparr>trace := trace s @ [ev]\<rparr>"

subsection \<open>The GC data slot of an nmethod\<close>

definition gc_data :: "'x state \<Rightarrow> nm_ptr \<Rightarrow> ZNMethodData option" where
  "gc_data s nm = nm_gc_data (nmethods s nm)"

definition set_gc_data :: "nm_ptr \<Rightarrow> ZNMethodData option \<Rightarrow> 'x state \<Rightarrow> 'x state" where
  "set_gc_data nm data s = s\<lparr>nmethods := (nmethods s)(nm := (nmethods s nm)\<lparr>nm_gc_data := data\<rparr>)\<rparr>"

text \<open>
  Modelled from the spec: \<^verbatim>\<open>ZNMethodData::create\<close>, \<^verbatim>\<open>ZNMethodData::destroy\<close>,
  \<^verbatim>\<open>ZNMethodDataOops::create\<close> and \<^verbatim>\<open>ZNMethodDataOops::destroy\<close> are defined in
  \<^verbatim>\<open>zNMethodData.cpp\<close>, which is not part of the sources. A new record owns a lock and
  has no snapshot yet; a new snapshot holds the immediate slots and the flag it is given.
  Creation and destruction are events.
\<close>

definition ZNMethodData_create :: "nm_ptr \<Rightarrow> 'x state \<Rightarrow> ZNMethodData \<times> 'x state" where
  "ZNMethodData_create nm s = (\<lparr>lock = Lock_of nm, data_oops = None\<rparr>, emit (ZNMethodData_created nm) s)"

definition ZNMethodData_destroy :: "ZNMethodData option \<Rightarrow> 'x state \<Rightarrow> 'x state" where
  "ZNMethodData_destroy data s = emit (ZNMethodData_destroyed data) s"

definition ZNMethodDataOops_create ::
  "addr list \<Rightarrow> bool \<Rightarrow> 'x state \<Rightarrow> ZNMethodDataOops \<times> 'x state" where
  "ZNMethodDataOops_create imm non_imm s =
     (let new_oops = \<lparr>immediates = imm, has_non_immediates = non_imm\<rparr>
      in (new_oops, emit (ZNMethodDataOops_created new_oops) s))"

definition ZNMethodDataOops_destroy :: "ZNMethodDataOops option \<Rightarrow> 'x state \<Rightarrow> 'x state" where
  "ZNMethodDataOops_destroy old s = emit (ZNMethodDataOops_destroyed old) s"

subsection \<open>\<^verbatim>\<open>ZNMethod::attach_gc_data\<close> and \<^verbatim>\<open>ZNMethod::detach_gc_data\<close>\<close>

text \<open>
  The loop over the relocations, with its two accumulators; \<^verbatim>\<open>GrowableArray::push\<close>
  appends.
\<close>

fun find_oop_relocations :: "relocation list \<Rightarrow> addr list \<Rightarrow> bool \<Rightarrow> addr list \<times> bool" where
  "find_oop_relocations [] immediate_oops non_immediate_oops =
     (immediate_oops, non_immediate_oops)"
| "find_oop_relocations (r # rs) immediate_oops non_immediate_oops =
     (if reloc_type r \<noteq> oop_type then
        find_oop_relocations rs immediate_oops non_immediate_oops
      else if \<not> oop_is_immediate r then
        find_oop_relocations rs immediate_oops True
      else if oop_value r \<noteq> NULL_oop then
        find_oop_relocations rs (immediate_oops @ [oop_addr r]) non_immediate_oops
      else
        find_oop_relocations rs immediate_oops non_immediate_oops)"

text \<open>
  \<^verbatim>\<open>data->swap_oops(new_oops)\<close> stores the new snapshot in the record, which the
  nmethod's slot points to, and returns the old one.
\<close>

definition attach_gc_data :: "nm_ptr \<Rightarrow> 'x state \<Rightarrow> 'x state" where
  "attach_gc_data nm s =
     (let (immediate_oops, non_immediate_oops) =
            find_oop_relocations (relocs (nmethods s nm)) [] False;
          (data, s1) =
            (case gc_data s nm of
               None \<Rightarrow>
                 (let (d, s') = ZNMethodData_create nm s
                  in (d, set_gc_data nm (Some d) s'))
             | Some d \<Rightarrow> (d, s));
          (new_oops, s2) = ZNMethodDataOops_create immediate_oops non_immediate_oops s1;
          old_oops = data_oops data;
          s3 = set_gc_data nm (Some (data\<lparr>data_oops := Some new_oops\<rparr>)) s2
      in ZNMethodDataOops_destroy old_oops s3)"

definition detach_gc_data :: "nm_ptr \<Rightarrow> 'x state \<Rightarrow> 'x state" where
  "detach_gc_data nm s = set_gc_data nm None (ZNMethodData_destroy (gc_data s nm) s)"

subsection \<open>\<^verbatim>\<open>ZNMethod::lock_for_nmethod\<close>\<close>

definition lock_for_nmethod :: "'x state \<Rightarrow> nm_ptr \<Rightarrow> ZReentrantLock option" where
  "lock_for_nmethod s nm =
     (case gc_data s nm of
        None \<Rightarrow> None
      | Some data \<Rightarrow> Some (lock data))"

subsection \<open>The registration table and the entry barrier\<close>

text \<open>
  Modelled from the spec: \<^verbatim>\<open>ZNMethodTable\<close> is defined in \<^verbatim>\<open>zNMethodTable.cpp\<close>, which is
  not part of the sources. It is a set of nmethods with insert and remove, a guarded
  iteration bracketed by \<^verbatim>\<open>nmethods_do_begin\<close> and \<^verbatim>\<open>nmethods_do_end\<close>, and a wait
  primitive for removers; what the iteration and the wait do between threads is the
  table's business, here they are events.
\<close>

definition ZNMethodTable_register_nmethod :: "nm_ptr \<Rightarrow> 'x state \<Rightarrow> 'x state" where
  "ZNMethodTable_register_nmethod nm s =
     emit (Table_register nm)
       (s\<lparr>table := (if nm \<in> set (table s) then table s else table s @ [nm])\<rparr>)"

definition ZNMethodTable_unregister_nmethod :: "nm_ptr \<Rightarrow> 'x state \<Rightarrow> 'x state" where
  "ZNMethodTable_unregister_nmethod nm s =
     emit (Table_unregister nm) (s\<lparr>table := removeAll nm (table s)\<rparr>)"

definition ZNMethodTable_wait_until_iteration_done :: "'x state \<Rightarrow> 'x state" where
  "ZNMethodTable_wait_until_iteration_done s = emit Wait_until_iteration_done s"

definition ZNMethodTable_nmethods_do_begin :: "'x state \<Rightarrow> 'x state" where
  "ZNMethodTable_nmethods_do_begin s = emit Nmethods_do_begin s"

definition ZNMethodTable_nmethods_do_end :: "'x state \<Rightarrow> 'x state" where
  "ZNMethodTable_nmethods_do_end s = emit Nmethods_do_end s"

text \<open>
  An \<^verbatim>\<open>NMethodClosure\<close> is its \<^verbatim>\<open>do_nmethod\<close>, on the closure's own fields \<open>'c\<close> and
  the state. \<^verbatim>\<open>ZNMethodTable::nmethods_do\<close> hands every entry of the table to the
  closure once. \<^verbatim>\<open>ZWorkers::run_concurrent\<close> (not part of the sources) runs
  the task's \<^verbatim>\<open>work\<close> on the worker threads and returns when all are done; the model
  is the schedule of one worker, which takes the entries one after the other.
\<close>

type_synonym ('c, 'x) NMethodClosure =
  "nm_ptr \<Rightarrow> 'c \<Rightarrow> 'x state \<Rightarrow> error + ('c \<times> 'x state)"

fun nmethods_do_entries ::
  "('c, 'x) NMethodClosure \<Rightarrow> nm_ptr list \<Rightarrow> 'c \<Rightarrow> 'x state \<Rightarrow> error + ('c \<times> 'x state)" where
  "nmethods_do_entries cl [] c s = Inr (c, s)"
| "nmethods_do_entries cl (nm # rest) c s =
     (case cl nm c s of
        Inl err \<Rightarrow> Inl err
      | Inr (c', s') \<Rightarrow> nmethods_do_entries cl rest c' s')"

definition ZNMethodTable_nmethods_do ::
  "('c, 'x) NMethodClosure \<Rightarrow> 'c \<Rightarrow> 'x state \<Rightarrow> error + ('c \<times> 'x state)" where
  "ZNMethodTable_nmethods_do cl c s = nmethods_do_entries cl (table s) c s"

text \<open>
  Modelled from the spec: \<^verbatim>\<open>BarrierSetNMethod::disarm\<close> (not part of the sources)
  disarms the guard of the nmethod.
\<close>

definition BarrierSetNMethod_disarm_nmethod :: "nm_ptr \<Rightarrow> 'x state \<Rightarrow> 'x state" where
  "BarrierSetNMethod_disarm_nmethod nm s =
     emit (BarrierSetNMethod_disarm nm)
       (s\<lparr>nmethods := (nmethods s)(nm := (nmethods s nm)\<lparr>armed := False\<rparr>)\<rparr>)"

definition disarm_nmethod :: "'x runtime \<Rightarrow> nm_ptr \<Rightarrow> 'x state \<Rightarrow> 'x state" where
  "disarm_nmethod rt nm s =
     (if has_barrier_set_nmethod rt then BarrierSetNMethod_disarm_nmethod nm s else s)"

subsection \<open>\<^verbatim>\<open>ZNMethod::register_nmethod\<close> and \<^verbatim>\<open>ZNMethod::unregister_nmethod\<close>\<close>

definition register_nmethod :: "'x runtime \<Rightarrow> nm_ptr \<Rightarrow> 'x state \<Rightarrow> 'x state" where
  "register_nmethod rt nm s =
     (let s1 = attach_gc_data nm s;
          s2 = ZNMethodTable_register_nmethod nm s1
      in disarm_nmethod rt nm s2)"

text \<open>
  The calling thread, as far as \<^verbatim>\<open>unregister_nmethod\<close> looks at it:
  \<^verbatim>\<open>CodeCache_lock->owned_by_self()\<close> and
  \<^verbatim>\<open>Thread::current()->is_Code_cache_sweeper_thread()\<close>.
\<close>

record thread =
  owns_CodeCache_lock :: bool
  is_Code_cache_sweeper_thread :: bool

text \<open>
  Modelled from the spec: the \<^verbatim>\<open>assert\<close> macro only, which is declared in
  \<^verbatim>\<open>utilities/debug.hpp\<close>, not part of the sources. A failed assertion is fatal: the
  call ends there, with nothing done. The rest is the source's.
\<close>

definition unregister_nmethod :: "thread \<Rightarrow> nm_ptr \<Rightarrow> 'x state \<Rightarrow> error + 'x state" where
  "unregister_nmethod current nm s =
     (if \<not> owns_CodeCache_lock current then Inl Assertion_failed
      else
        let s1 = (if is_Code_cache_sweeper_thread current
                  then ZNMethodTable_wait_until_iteration_done s else s);
            s2 = ZNMethodTable_unregister_nmethod nm s1
        in Inr (detach_gc_data nm s2))"

subsection \<open>\<^verbatim>\<open>ZNMethod::nmethod_oops_do\<close>\<close>

definition do_oop :: "OopClosure \<Rightarrow> addr \<Rightarrow> 'x state \<Rightarrow> 'x state" where
  "do_oop cl p s = emit (Do_oop p) (s\<lparr>mem := cl p (mem s)\<rparr>)"

text \<open>The loop over the oops table: \<^verbatim>\<open>for (oop* p = begin; p < end; p++)\<close>.\<close>

function oops_table_do :: "oop \<Rightarrow> OopClosure \<Rightarrow> addr \<Rightarrow> addr \<Rightarrow> 'x state \<Rightarrow> 'x state" where
  "oops_table_do w cl p end_p s =
     (if p < end_p then
        oops_table_do w cl (Suc p) end_p (if mem s p \<noteq> w then do_oop cl p s else s)
      else s)"
  by pat_completeness auto
termination
  by (relation "measure (\<lambda>(w, cl, p, end_p, s). end_p - p)") auto

declare oops_table_do.simps [simp del]

text \<open>
  The loop over the immediate slots of the snapshot:
  \<^verbatim>\<open>for (oop** p = begin; p < end; p++)\<close>, where \<^verbatim>\<open>*p\<close> is the slot.
\<close>

fun immediates_do :: "oop \<Rightarrow> OopClosure \<Rightarrow> addr list \<Rightarrow> 'x state \<Rightarrow> 'x state" where
  "immediates_do w cl [] s = s"
| "immediates_do w cl (p # ps) s =
     immediates_do w cl ps (if mem s p \<noteq> w then do_oop cl p s else s)"

definition fix_oop_relocations :: "'x runtime \<Rightarrow> nm_ptr \<Rightarrow> 'x state \<Rightarrow> 'x state" where
  "fix_oop_relocations rt nm s =
     emit (Fix_oop_relocations nm) (s\<lparr>mem := fix_relocations rt nm (mem s)\<rparr>)"

text \<open>
  \<^verbatim>\<open>gc_data(nm)->oops()\<close> and the reads of the snapshot dereference the two pointers;
  the oops table has been processed by then.
\<close>

definition nmethod_oops_do ::
  "'x runtime \<Rightarrow> nm_ptr \<Rightarrow> OopClosure \<Rightarrow> 'x state \<Rightarrow> error + 'x state" where
  "nmethod_oops_do rt nm cl s =
     (let s1 = oops_table_do (non_oop_word rt) cl
                 (oops_begin (nmethods s nm)) (oops_end (nmethods s nm)) s
      in case gc_data s1 nm of
           None \<Rightarrow> Inl Null_pointer
         | Some data \<Rightarrow>
             (case data_oops data of
                None \<Rightarrow> Inl Null_pointer
              | Some snapshot \<Rightarrow>
                  let s2 = immediates_do (non_oop_word rt) cl (immediates snapshot) s1
                  in Inr (if has_non_immediates snapshot
                          then fix_oop_relocations rt nm s2 else s2)))"

subsection \<open>Unlinking\<close>

text \<open>
  The nmethod's own operations (\<^verbatim>\<open>code/nmethod.cpp\<close>, not part of the sources):
  \<^verbatim>\<open>flush_dependencies\<close> and \<^verbatim>\<open>unlink_from_method\<close> are events with the flag they are
  given; \<^verbatim>\<open>unload_nmethod_caches\<close> works on the inline-cache state, as the runtime
  parameter says, and reports whether it succeeded.
\<close>

definition flush_dependencies :: "nm_ptr \<Rightarrow> bool \<Rightarrow> 'x state \<Rightarrow> 'x state" where
  "flush_dependencies nm delete_immediately s = emit (Flush_dependencies nm delete_immediately) s"

definition unlink_from_method :: "nm_ptr \<Rightarrow> bool \<Rightarrow> 'x state \<Rightarrow> 'x state" where
  "unlink_from_method nm acquire_lock s = emit (Unlink_from_method nm acquire_lock) s"

definition unload_nmethod_caches ::
  "'x runtime \<Rightarrow> nm_ptr \<Rightarrow> bool \<Rightarrow> 'x state \<Rightarrow> bool \<times> 'x state" where
  "unload_nmethod_caches rt nm unloading_occurred s =
     (let (ok, x) = unload_caches rt nm unloading_occurred (ic_state s)
      in (ok, emit (Unload_nmethod_caches nm unloading_occurred ok) (s\<lparr>ic_state := x\<rparr>)))"

text \<open>
  Modelled from the spec: \<^verbatim>\<open>nmethod::make_unloaded\<close> (not part of the sources) marks the
  nmethod unloaded; it is not alive any more.
\<close>

definition make_unloaded :: "nm_ptr \<Rightarrow> 'x state \<Rightarrow> 'x state" where
  "make_unloaded nm s =
     emit (Make_unloaded nm)
       (s\<lparr>nmethods := (nmethods s)(nm := (nmethods s nm)\<lparr>is_alive := False\<rparr>)\<rparr>)"

record ZNMethodUnlinkClosure =
  unloading_occurred :: bool
  failed :: bool

definition set_failed :: "ZNMethodUnlinkClosure \<Rightarrow> ZNMethodUnlinkClosure" where
  "set_failed c = c\<lparr>failed := True\<rparr>"

text \<open>
  \<^verbatim>\<open>ZNMethodUnlinkClosure::do_nmethod\<close>. The \<^verbatim>\<open>ZLocker\<close> is constructed with what
  \<^verbatim>\<open>lock_for_nmethod\<close> returns and released on every way out of its scope.
\<close>

definition ZNMethodUnlinkClosure_do_nmethod ::
  "'x runtime \<Rightarrow> (ZNMethodUnlinkClosure, 'x) NMethodClosure" where
  "ZNMethodUnlinkClosure_do_nmethod rt nm c s =
     (if failed c then Inr (c, s)
      else if \<not> is_alive (nmethods s nm) then Inr (c, s)
      else
        let l = lock_for_nmethod s nm;
            s1 = emit (ZLocker_lock l) s
        in if is_unloading (nmethods s1 nm) then
             let s2 = flush_dependencies nm False s1;
                 s3 = unlink_from_method nm False s2
             in Inr (c, emit (ZLocker_unlock l) s3)
           else
             (case nmethod_oops_do rt nm (heal_oop rt) s1 of
                Inl err \<Rightarrow> Inl err
              | Inr s2 \<Rightarrow>
                  let s3 = disarm_nmethod rt nm s2;
                      (ok, s4) = unload_nmethod_caches rt nm (unloading_occurred c) s3;
                      c' = (if \<not> ok then set_failed c else c)
                  in Inr (c', emit (ZLocker_unlock l) s4)))"

text \<open>
  One \<^verbatim>\<open>ZNMethodUnlinkTask\<close>, from its constructor to its destructor: the closure
  starts with \<^verbatim>\<open>_failed\<close> false; the result is the state and \<^verbatim>\<open>task.success()\<close>.
\<close>

definition ZNMethodUnlinkTask_run ::
  "'x runtime \<Rightarrow> bool \<Rightarrow> 'x state \<Rightarrow> error + (bool \<times> 'x state)" where
  "ZNMethodUnlinkTask_run rt unloading s =
     (let cl0 = \<lparr>unloading_occurred = unloading, failed = False\<rparr>;
          s0 = ZNMethodTable_nmethods_do_begin s
      in case ZNMethodTable_nmethods_do (ZNMethodUnlinkClosure_do_nmethod rt) cl0 s0 of
           Inl err \<Rightarrow> Inl err
         | Inr (cl, s1) \<Rightarrow> Inr (\<not> failed cl, ZNMethodTable_nmethods_do_end s1))"

text \<open>
  After a pass that failed: the \<^verbatim>\<open>SuspendibleThreadSetLeaver\<close> leaves the set,
  \<^verbatim>\<open>InlineCacheBuffer::refill_ic_stubs\<close> runs, and the leaver's destructor joins again.
\<close>

definition refill_ic_stubs :: "'x runtime \<Rightarrow> 'x state \<Rightarrow> 'x state" where
  "refill_ic_stubs rt s = emit Refill_ic_stubs (s\<lparr>ic_state := refill_stubs rt (ic_state s)\<rparr>)"

definition leave_and_refill :: "'x runtime \<Rightarrow> 'x state \<Rightarrow> 'x state" where
  "leave_and_refill rt s = emit STS_join (refill_ic_stubs rt (emit STS_leave s))"

text \<open>
  \<^verbatim>\<open>ZNMethod::unlink\<close>: \<^verbatim>\<open>for (;;)\<close> has no bound, so the result is an \<open>option\<close> and
  \<open>None\<close> is the loop that never ends.
\<close>

partial_function (option) unlink ::
  "'x runtime \<Rightarrow> bool \<Rightarrow> 'x state \<Rightarrow> (error + 'x state) option" where
  "unlink rt unloading s =
     (case ZNMethodUnlinkTask_run rt unloading s of
        Inl err \<Rightarrow> Some (Inl err)
      | Inr (success, s1) \<Rightarrow>
          if success then Some (Inr s1)
          else unlink rt unloading (leave_and_refill rt s1))"

declare unlink.simps [code]

subsection \<open>Purging\<close>

definition ZNMethodPurgeClosure_do_nmethod :: "(unit, 'x) NMethodClosure" where
  "ZNMethodPurgeClosure_do_nmethod nm c s =
     (if is_alive (nmethods s nm) \<and> is_unloading (nmethods s nm)
      then Inr (c, make_unloaded nm s) else Inr (c, s))"

definition purge :: "'x state \<Rightarrow> error + 'x state" where
  "purge s =
     (let s0 = ZNMethodTable_nmethods_do_begin s
      in case ZNMethodTable_nmethods_do ZNMethodPurgeClosure_do_nmethod () s0 of
           Inl err \<Rightarrow> Inl err
         | Inr (cl, s1) \<Rightarrow> Inr (ZNMethodTable_nmethods_do_end s1))"

subsection \<open>The traversal in the spec's words\<close>

text \<open>
  Following the spec: walk the slots in order and invoke the callback on every slot
  whose current value is not the sentinel. The current value of a slot is its value
  when the walk reaches it, after the callbacks on the slots before it.
  \<open>visited_slots\<close> are the slots the callback is invoked on, \<open>store_after\<close> is the
  store the walk leaves.
\<close>

fun visited_slots :: "oop \<Rightarrow> OopClosure \<Rightarrow> addr list \<Rightarrow> (addr \<Rightarrow> oop) \<Rightarrow> addr list" where
  "visited_slots w cl [] m = []"
| "visited_slots w cl (p # ps) m =
     (if m p \<noteq> w then p # visited_slots w cl ps (cl p m) else visited_slots w cl ps m)"

fun store_after :: "oop \<Rightarrow> OopClosure \<Rightarrow> addr list \<Rightarrow> (addr \<Rightarrow> oop) \<Rightarrow> (addr \<Rightarrow> oop)" where
  "store_after w cl [] m = m"
| "store_after w cl (p # ps) m = store_after w cl ps (if m p \<noteq> w then cl p m else m)"

text \<open>
  An update of the store keeps the sentinel on a set of slots when it neither writes
  the sentinel into one of them nor overwrites it there.
\<close>

definition keeps_sentinel :: "oop \<Rightarrow> addr set \<Rightarrow> ((addr \<Rightarrow> oop) \<Rightarrow> (addr \<Rightarrow> oop)) \<Rightarrow> bool" where
  "keeps_sentinel w A f = (\<forall>m. \<forall>a\<in>A. (f m a = w) = (m a = w))"

text \<open>The slots of an nmethod the visitor looks at: its oops table and the immediate slots of a snapshot.\<close>

definition slots_of :: "nmethod \<Rightarrow> ZNMethodDataOops \<Rightarrow> addr set" where
  "slots_of n snapshot = {oops_begin n ..< oops_end n} \<union> set (immediates snapshot)"

text \<open>
  The attachment invariant: an nmethod has a \<^verbatim>\<open>ZNMethodData\<close> exactly when it is in the
  registration table.
\<close>

definition attachment_invariant :: "'x state \<Rightarrow> bool" where
  "attachment_invariant s = (\<forall>nm. (gc_data s nm \<noteq> None) = (nm \<in> set (table s)))"

text \<open>The events a run appended to the trace, from the state before and the state after.\<close>

definition new_events :: "'x state \<Rightarrow> 'x state \<Rightarrow> event list" where
  "new_events s s' = drop (length (trace s)) (trace s')"

text \<open>
  \<open>unlink_retries rt unloading s s0\<close>: from \<open>s\<close>, some number of unlink passes failed, each
  followed by leaving the suspendible thread set and refilling the stubs, and the next
  pass starts in \<open>s0\<close>.
\<close>

inductive unlink_retries :: "'x runtime \<Rightarrow> bool \<Rightarrow> 'x state \<Rightarrow> 'x state \<Rightarrow> bool" where
  no_retry: "unlink_retries rt unloading s s"
| retry: "ZNMethodUnlinkTask_run rt unloading s = Inr (False, s1) \<Longrightarrow>
          unlink_retries rt unloading (leave_and_refill rt s1) s0 \<Longrightarrow>
          unlink_retries rt unloading s s0"

code_pred (modes: i \<Rightarrow> i \<Rightarrow> i \<Rightarrow> o \<Rightarrow> bool) unlink_retries .

subsection \<open>An example\<close>

text \<open>
  Three nmethods: \<open>1\<close> has two immediate oops and an oops table of two slots, the second
  holding the non-oop word; \<open>2\<close> has one non-immediate oop; \<open>3\<close> has an immediate null
  and a non-immediate oop, and is unloading. The inline-cache state is the number of
  free stubs: releasing the caches of an nmethod takes one, a refill makes two.
\<close>

definition example_runtime :: "nat runtime" where
  "example_runtime =
     \<lparr>non_oop_word = 99,
      has_barrier_set_nmethod = True,
      heal_oop = (\<lambda>p m. if m p < 99 then m(p := m p + 100) else m),
      fix_relocations = (\<lambda>nm m. m),
      unload_caches = (\<lambda>nm unloading x. if x = 0 then (False, 0) else (True, x - 1)),
      refill_stubs = (\<lambda>x. 2)\<rparr>"

text \<open>The same runtime with a barrier set that has no nmethod barrier.\<close>

definition example_runtime_no_barrier :: "nat runtime" where
  "example_runtime_no_barrier = example_runtime\<lparr>has_barrier_set_nmethod := False\<rparr>"

definition example_nmethods :: "nm_ptr \<Rightarrow> nmethod" where
  "example_nmethods =
     (\<lambda>nm. \<lparr>relocs = [], oops_begin = 0, oops_end = 0, nm_gc_data = None,
             is_alive = False, is_unloading = False, armed = False\<rparr>)
     (1 := \<lparr>relocs = [\<lparr>reloc_type = oop_type, oop_is_immediate = True, oop_value = 5, oop_addr = 20\<rparr>,
                       \<lparr>reloc_type = other_type, oop_is_immediate = False, oop_value = 0, oop_addr = 0\<rparr>,
                       \<lparr>reloc_type = oop_type, oop_is_immediate = True, oop_value = 6, oop_addr = 21\<rparr>],
            oops_begin = 10, oops_end = 12, nm_gc_data = None,
            is_alive = True, is_unloading = False, armed = True\<rparr>,
      2 := \<lparr>relocs = [\<lparr>reloc_type = oop_type, oop_is_immediate = False, oop_value = 7, oop_addr = 12\<rparr>],
            oops_begin = 12, oops_end = 13, nm_gc_data = None,
            is_alive = True, is_unloading = False, armed = True\<rparr>,
      3 := \<lparr>relocs = [\<lparr>reloc_type = oop_type, oop_is_immediate = True, oop_value = 0, oop_addr = 22\<rparr>,
                       \<lparr>reloc_type = oop_type, oop_is_immediate = False, oop_value = 8, oop_addr = 13\<rparr>],
            oops_begin = 13, oops_end = 14, nm_gc_data = None,
            is_alive = True, is_unloading = True, armed = True\<rparr>)"

definition example_mem :: "addr \<Rightarrow> oop" where
  "example_mem = (\<lambda>a. 0)(10 := 5, 11 := 99, 12 := 7, 13 := 8, 20 := 5, 21 := 6)"

text \<open>Nothing is registered yet.\<close>

definition example_start :: "nat state" where
  "example_start =
     \<lparr>nmethods = example_nmethods, mem = example_mem, table = [], ic_state = 1, trace = []\<rparr>"

text \<open>The three nmethods are registered.\<close>

definition example_data :: "nm_ptr \<Rightarrow> ZNMethodData" where
  "example_data nm =
     \<lparr>lock = Lock_of nm,
      data_oops = Some (if nm = 1 then \<lparr>immediates = [20, 21], has_non_immediates = False\<rparr>
                        else \<lparr>immediates = [], has_non_immediates = True\<rparr>)\<rparr>"

definition example_registered :: "nat state" where
  "example_registered =
     \<lparr>nmethods = (\<lambda>nm. if nm \<in> {1, 2, 3}
                        then (example_nmethods nm)\<lparr>nm_gc_data := Some (example_data nm)\<rparr>
                        else example_nmethods nm),
      mem = example_mem, table = [1, 2, 3], ic_state = 1, trace = []\<rparr>"

text \<open>The registered nmethods when \<open>1\<close> is dead and \<open>2\<close> is unloading as well.\<close>

definition example_unloading :: "nat state" where
  "example_unloading =
     example_registered\<lparr>nmethods :=
       (nmethods example_registered)
         (1 := (nmethods example_registered 1)\<lparr>is_alive := False\<rparr>,
          2 := (nmethods example_registered 2)\<lparr>is_unloading := True\<rparr>)\<rparr>"

section \<open>Auxiliary lemmas\<close>

subsection \<open>The state, field by field\<close>

lemma emit_fields [simp]:
  "trace (emit ev s) = trace s @ [ev]"
  "nmethods (emit ev s) = nmethods s"
  "mem (emit ev s) = mem s"
  "table (emit ev s) = table s"
  "ic_state (emit ev s) = ic_state s"
  by (simp_all add: emit_def)

lemma gc_data_emit [simp]: "gc_data (emit ev s) nm = gc_data s nm"
  by (simp add: gc_data_def)

lemma gc_data_set_gc_data [simp]:
  "gc_data (set_gc_data nm d s) nm' = (if nm' = nm then d else gc_data s nm')"
  by (simp add: gc_data_def set_gc_data_def)

lemma set_gc_data_fields [simp]:
  "trace (set_gc_data nm d s) = trace s"
  "mem (set_gc_data nm d s) = mem s"
  "table (set_gc_data nm d s) = table s"
  "ic_state (set_gc_data nm d s) = ic_state s"
  by (simp_all add: set_gc_data_def)

lemma find_oop_relocations_eq:
  "find_oop_relocations rs imm non =
     (imm @ map oop_addr
        (filter (\<lambda>r. reloc_type r = oop_type \<and> oop_is_immediate r \<and> oop_value r \<noteq> NULL_oop) rs),
      non \<or> (\<exists>r\<in>set rs. reloc_type r = oop_type \<and> \<not> oop_is_immediate r))"
  by (induction rs arbitrary: imm non) auto

text \<open>The snapshot \<^verbatim>\<open>attach_gc_data\<close> builds for an nmethod.\<close>

lemma attach_gc_data_fields:
  "gc_data (attach_gc_data nm s) nm' =
     (if nm' = nm then
        Some \<lparr>lock = (case gc_data s nm of None \<Rightarrow> Lock_of nm | Some d \<Rightarrow> lock d),
              data_oops = Some
                \<lparr>immediates = fst (find_oop_relocations (relocs (nmethods s nm)) [] False),
                 has_non_immediates = snd (find_oop_relocations (relocs (nmethods s nm)) [] False)\<rparr>\<rparr>
      else gc_data s nm')"
  "trace (attach_gc_data nm s) = trace s
     @ (case gc_data s nm of None \<Rightarrow> [ZNMethodData_created nm] | Some d \<Rightarrow> [])
     @ [ZNMethodDataOops_created
          \<lparr>immediates = fst (find_oop_relocations (relocs (nmethods s nm)) [] False),
           has_non_immediates = snd (find_oop_relocations (relocs (nmethods s nm)) [] False)\<rparr>,
        ZNMethodDataOops_destroyed (case gc_data s nm of None \<Rightarrow> None | Some d \<Rightarrow> data_oops d)]"
  "table (attach_gc_data nm s) = table s"
  "mem (attach_gc_data nm s) = mem s"
  "ic_state (attach_gc_data nm s) = ic_state s"
  by (simp_all add: attach_gc_data_def ZNMethodData_create_def ZNMethodDataOops_create_def
      ZNMethodDataOops_destroy_def Let_def split: prod.splits option.splits)

lemma do_oop_fields [simp]:
  "trace (do_oop cl p s) = trace s @ [Do_oop p]"
  "nmethods (do_oop cl p s) = nmethods s"
  "mem (do_oop cl p s) = cl p (mem s)"
  "table (do_oop cl p s) = table s"
  "ic_state (do_oop cl p s) = ic_state s"
  by (simp_all add: do_oop_def)

lemma immediates_do_fields:
  "trace (immediates_do w cl ps s) = trace s @ map Do_oop (visited_slots w cl ps (mem s))"
  "mem (immediates_do w cl ps s) = store_after w cl ps (mem s)"
  "nmethods (immediates_do w cl ps s) = nmethods s"
  "table (immediates_do w cl ps s) = table s"
  "ic_state (immediates_do w cl ps s) = ic_state s"
  by (induction ps arbitrary: s) simp_all

lemma oops_table_do_immediates_do:
  "oops_table_do w cl p end_p s = immediates_do w cl [p..<end_p] s"
proof (induction w cl p end_p s rule: oops_table_do.induct)
  case (1 w cl p end_p s)
  show ?case
  proof (cases "p < end_p")
    case True
    then have "[p..<end_p] = p # [Suc p..<end_p]"
      by (simp add: upt_conv_Cons)
    with True "1.IH" show ?thesis
      by (subst oops_table_do.simps) simp
  next
    case False
    then show ?thesis
      by (subst oops_table_do.simps) simp
  qed
qed

lemma visited_slots_subset: "set (visited_slots w cl ps m) \<subseteq> set ps"
  by (induction ps arbitrary: m) auto

lemma store_after_stable:
  assumes "\<forall>p. keeps_sentinel w A (cl p)" and "a \<in> A"
  shows "(store_after w cl ps m a = w) = (m a = w)"
proof (induction ps arbitrary: m)
  case Nil
  show ?case by simp
next
  case (Cons p ps)
  from assms have "(cl p m a = w) = (m a = w)"
    unfolding keeps_sentinel_def by blast
  with Cons show ?case by simp
qed

lemma visited_slots_stable:
  assumes "\<forall>p. keeps_sentinel w A (cl p)" and "set ps \<subseteq> A"
  shows "visited_slots w cl ps m = filter (\<lambda>p. m p \<noteq> w) ps"
  using assms
proof (induction ps arbitrary: m)
  case Nil
  then show ?case by simp
next
  case (Cons p ps)
  have same: "filter (\<lambda>q. cl p m q \<noteq> w) ps = filter (\<lambda>q. m q \<noteq> w) ps"
  proof (rule filter_cong [OF refl])
    fix q assume "q \<in> set ps"
    with Cons.prems have "q \<in> A" by auto
    with Cons.prems(1) show "(cl p m q \<noteq> w) = (m q \<noteq> w)"
      unfolding keeps_sentinel_def by blast
  qed
  from Cons show ?case by (simp add: same)
qed

lemma fix_oop_relocations_fields [simp]:
  "trace (fix_oop_relocations rt nm s) = trace s @ [Fix_oop_relocations nm]"
  "nmethods (fix_oop_relocations rt nm s) = nmethods s"
  "mem (fix_oop_relocations rt nm s) = fix_relocations rt nm (mem s)"
  "table (fix_oop_relocations rt nm s) = table s"
  "ic_state (fix_oop_relocations rt nm s) = ic_state s"
  by (simp_all add: fix_oop_relocations_def)

text \<open>What the visitor does to a registered nmethod, field by field.\<close>

lemma nmethod_oops_do_registered:
  assumes "gc_data s nm = Some data" and "data_oops data = Some snapshot"
    and "w = non_oop_word rt"
    and "tbl = [oops_begin (nmethods s nm) ..< oops_end (nmethods s nm)]"
  shows "\<exists>s'. nmethod_oops_do rt nm cl s = Inr s' \<and>
     trace s' = trace s @ map Do_oop (visited_slots w cl tbl (mem s))
        @ map Do_oop (visited_slots w cl (immediates snapshot) (store_after w cl tbl (mem s)))
        @ (if has_non_immediates snapshot then [Fix_oop_relocations nm] else []) \<and>
     mem s' = (if has_non_immediates snapshot then fix_relocations rt nm else id)
        (store_after w cl (immediates snapshot) (store_after w cl tbl (mem s))) \<and>
     nmethods s' = nmethods s \<and> table s' = table s \<and> ic_state s' = ic_state s"
proof -
  have "gc_data (immediates_do w cl tbl s) nm = Some data"
    using assms(1) by (simp add: gc_data_def immediates_do_fields)
  then show ?thesis
    using assms(2)
    by (simp add: nmethod_oops_do_def oops_table_do_immediates_do Let_def immediates_do_fields
        assms(3) [symmetric] assms(4) [symmetric])
qed

lemma nmethod_oops_do_stable:
  assumes reg: "gc_data s nm = Some data" "data_oops data = Some snapshot"
    and cl: "\<forall>p. keeps_sentinel (non_oop_word rt) (slots_of (nmethods s nm) snapshot) (cl p)"
    and fx: "keeps_sentinel (non_oop_word rt) (slots_of (nmethods s nm) snapshot) (fix_relocations rt nm)"
  shows "\<exists>s'. nmethod_oops_do rt nm cl s = Inr s' \<and>
     trace s' = trace s
        @ map Do_oop (filter (\<lambda>p. mem s p \<noteq> non_oop_word rt)
            ([oops_begin (nmethods s nm) ..< oops_end (nmethods s nm)] @ immediates snapshot))
        @ (if has_non_immediates snapshot then [Fix_oop_relocations nm] else []) \<and>
     (\<forall>a\<in>slots_of (nmethods s nm) snapshot. (mem s' a = non_oop_word rt) = (mem s a = non_oop_word rt)) \<and>
     nmethods s' = nmethods s \<and> table s' = table s \<and> ic_state s' = ic_state s"
proof -
  let ?w = "non_oop_word rt"
  let ?tbl = "[oops_begin (nmethods s nm) ..< oops_end (nmethods s nm)]"
  let ?A = "slots_of (nmethods s nm) snapshot"
  let ?m1 = "store_after ?w cl ?tbl (mem s)"
  let ?m2 = "store_after ?w cl (immediates snapshot) ?m1"
  have tblA: "set ?tbl \<subseteq> ?A" and immA: "set (immediates snapshot) \<subseteq> ?A"
    by (auto simp: slots_of_def)
  have v1: "visited_slots ?w cl ?tbl (mem s) = filter (\<lambda>p. mem s p \<noteq> ?w) ?tbl"
    by (rule visited_slots_stable [OF cl tblA])
  have m1: "(?m1 a = ?w) = (mem s a = ?w)" if "a \<in> ?A" for a
    by (rule store_after_stable [OF cl that])
  have "visited_slots ?w cl (immediates snapshot) ?m1 = filter (\<lambda>p. ?m1 p \<noteq> ?w) (immediates snapshot)"
    by (rule visited_slots_stable [OF cl immA])
  also have "\<dots> = filter (\<lambda>p. mem s p \<noteq> ?w) (immediates snapshot)"
    using immA by (intro filter_cong [OF refl]) (auto simp: m1)
  finally have v2: "visited_slots ?w cl (immediates snapshot) ?m1
      = filter (\<lambda>p. mem s p \<noteq> ?w) (immediates snapshot)" .
  have m2: "(?m2 a = ?w) = (mem s a = ?w)" if "a \<in> ?A" for a
    using store_after_stable [OF cl that, of "immediates snapshot" ?m1] m1 [OF that] by simp
  have m3: "(fix_relocations rt nm ?m2 a = ?w) = (mem s a = ?w)" if "a \<in> ?A" for a
    using fx that m2 [OF that] unfolding keeps_sentinel_def by blast
  from nmethod_oops_do_registered [OF reg refl refl, of rt cl]
  obtain s' where s': "nmethod_oops_do rt nm cl s = Inr s'"
    "trace s' = trace s @ map Do_oop (visited_slots ?w cl ?tbl (mem s))
        @ map Do_oop (visited_slots ?w cl (immediates snapshot) ?m1)
        @ (if has_non_immediates snapshot then [Fix_oop_relocations nm] else [])"
    "mem s' = (if has_non_immediates snapshot then fix_relocations rt nm else id) ?m2"
    "nmethods s' = nmethods s" "table s' = table s" "ic_state s' = ic_state s"
    by blast
  have "\<forall>a\<in>?A. (mem s' a = ?w) = (mem s a = ?w)"
    using s'(3) m2 m3 by simp
  with s' v1 v2 show ?thesis by simp
qed



subsection \<open>Registration, field by field\<close>

lemma detach_gc_data_fields:
  "gc_data (detach_gc_data nm s) nm' = (if nm' = nm then None else gc_data s nm')"
  "trace (detach_gc_data nm s) = trace s @ [ZNMethodData_destroyed (gc_data s nm)]"
  "table (detach_gc_data nm s) = table s"
  "mem (detach_gc_data nm s) = mem s"
  "ic_state (detach_gc_data nm s) = ic_state s"
  by (simp_all add: detach_gc_data_def ZNMethodData_destroy_def)

lemma ZNMethodTable_register_nmethod_fields [simp]:
  "trace (ZNMethodTable_register_nmethod nm s) = trace s @ [Table_register nm]"
  "table (ZNMethodTable_register_nmethod nm s) = (if nm \<in> set (table s) then table s else table s @ [nm])"
  "nmethods (ZNMethodTable_register_nmethod nm s) = nmethods s"
  "gc_data (ZNMethodTable_register_nmethod nm s) nm' = gc_data s nm'"
  "mem (ZNMethodTable_register_nmethod nm s) = mem s"
  "ic_state (ZNMethodTable_register_nmethod nm s) = ic_state s"
  by (simp_all add: ZNMethodTable_register_nmethod_def gc_data_def)

lemma ZNMethodTable_unregister_nmethod_fields [simp]:
  "trace (ZNMethodTable_unregister_nmethod nm s) = trace s @ [Table_unregister nm]"
  "table (ZNMethodTable_unregister_nmethod nm s) = removeAll nm (table s)"
  "nmethods (ZNMethodTable_unregister_nmethod nm s) = nmethods s"
  "gc_data (ZNMethodTable_unregister_nmethod nm s) nm' = gc_data s nm'"
  "mem (ZNMethodTable_unregister_nmethod nm s) = mem s"
  "ic_state (ZNMethodTable_unregister_nmethod nm s) = ic_state s"
  by (simp_all add: ZNMethodTable_unregister_nmethod_def gc_data_def)

lemma ZNMethodTable_wait_fields [simp]:
  "trace (ZNMethodTable_wait_until_iteration_done s) = trace s @ [Wait_until_iteration_done]"
  "table (ZNMethodTable_wait_until_iteration_done s) = table s"
  "nmethods (ZNMethodTable_wait_until_iteration_done s) = nmethods s"
  "gc_data (ZNMethodTable_wait_until_iteration_done s) nm' = gc_data s nm'"
  "mem (ZNMethodTable_wait_until_iteration_done s) = mem s"
  "ic_state (ZNMethodTable_wait_until_iteration_done s) = ic_state s"
  by (simp_all add: ZNMethodTable_wait_until_iteration_done_def gc_data_def)

lemma disarm_nmethod_fields [simp]:
  "trace (disarm_nmethod rt nm s) =
     trace s @ (if has_barrier_set_nmethod rt then [BarrierSetNMethod_disarm nm] else [])"
  "nmethods (disarm_nmethod rt nm s) =
     (if has_barrier_set_nmethod rt
      then (nmethods s)(nm := (nmethods s nm)\<lparr>armed := False\<rparr>) else nmethods s)"
  "gc_data (disarm_nmethod rt nm s) nm' = gc_data s nm'"
  "table (disarm_nmethod rt nm s) = table s"
  "mem (disarm_nmethod rt nm s) = mem s"
  "ic_state (disarm_nmethod rt nm s) = ic_state s"
  by (simp_all add: disarm_nmethod_def BarrierSetNMethod_disarm_nmethod_def gc_data_def)

lemma register_nmethod_fields:
  "gc_data (register_nmethod rt nm s) nm' = gc_data (attach_gc_data nm s) nm'"
  "table (register_nmethod rt nm s) = (if nm \<in> set (table s) then table s else table s @ [nm])"
  "trace (register_nmethod rt nm s) = trace (attach_gc_data nm s) @ [Table_register nm]
     @ (if has_barrier_set_nmethod rt then [BarrierSetNMethod_disarm nm] else [])"
  "mem (register_nmethod rt nm s) = mem s"
  "ic_state (register_nmethod rt nm s) = ic_state s"
  by (simp_all add: register_nmethod_def Let_def attach_gc_data_fields)

lemma unregister_nmethod_locked:
  assumes "owns_CodeCache_lock current"
  shows "\<exists>s'. unregister_nmethod current nm s = Inr s' \<and>
     trace s' = trace s
       @ (if is_Code_cache_sweeper_thread current then [Wait_until_iteration_done] else [])
       @ [Table_unregister nm, ZNMethodData_destroyed (gc_data s nm)] \<and>
     table s' = removeAll nm (table s) \<and>
     (\<forall>nm'. gc_data s' nm' = (if nm' = nm then None else gc_data s nm')) \<and>
     mem s' = mem s \<and> ic_state s' = ic_state s"
  using assms by (simp add: unregister_nmethod_def Let_def detach_gc_data_fields)

subsection \<open>The unlink closure, field by field\<close>

lemma nmethod_oops_do_Inr:
  assumes "nmethod_oops_do rt nm cl s = Inr s'"
  shows "\<exists>data snapshot. gc_data s nm = Some data \<and> data_oops data = Some snapshot"
  using assms
  by (simp add: nmethod_oops_do_def Let_def oops_table_do_immediates_do gc_data_def
      immediates_do_fields split: option.splits)

lemma nmethod_oops_do_frame:
  assumes "nmethod_oops_do rt nm cl s = Inr s'"
  shows "nmethods s' = nmethods s \<and> table s' = table s \<and> ic_state s' = ic_state s \<and>
     (\<exists>evs. trace s' = trace s @ evs \<and>
        (\<forall>e\<in>set evs. (\<exists>p. e = Do_oop p) \<or> e = Fix_oop_relocations nm))"
proof -
  from nmethod_oops_do_Inr [OF assms] obtain data snapshot
    where reg: "gc_data s nm = Some data" "data_oops data = Some snapshot"
    by blast
  from nmethod_oops_do_registered [OF reg refl refl, of rt cl] assms
  show ?thesis by auto
qed

lemma unload_nmethod_caches_eq:
  "unload_nmethod_caches rt nm u s =
     (fst (unload_caches rt nm u (ic_state s)),
      emit (Unload_nmethod_caches nm u (fst (unload_caches rt nm u (ic_state s))))
        (s\<lparr>ic_state := snd (unload_caches rt nm u (ic_state s))\<rparr>))"
  by (simp add: unload_nmethod_caches_def split: prod.splits)

lemma flush_unlink_fields [simp]:
  "trace (flush_dependencies nm b s) = trace s @ [Flush_dependencies nm b]"
  "nmethods (flush_dependencies nm b s) = nmethods s"
  "table (flush_dependencies nm b s) = table s"
  "mem (flush_dependencies nm b s) = mem s"
  "ic_state (flush_dependencies nm b s) = ic_state s"
  "trace (unlink_from_method nm b s) = trace s @ [Unlink_from_method nm b]"
  "nmethods (unlink_from_method nm b s) = nmethods s"
  "table (unlink_from_method nm b s) = table s"
  "mem (unlink_from_method nm b s) = mem s"
  "ic_state (unlink_from_method nm b s) = ic_state s"
  by (simp_all add: flush_dependencies_def unlink_from_method_def)

text \<open>The three ways through \<^verbatim>\<open>ZNMethodUnlinkClosure::do_nmethod\<close>.\<close>

lemma do_nmethod_skipped:
  assumes "failed c \<or> \<not> is_alive (nmethods s nm)"
  shows "ZNMethodUnlinkClosure_do_nmethod rt nm c s = Inr (c, s)"
  using assms by (auto simp: ZNMethodUnlinkClosure_do_nmethod_def)

lemma do_nmethod_unloading:
  assumes "\<not> failed c" and "is_alive (nmethods s nm)" and "is_unloading (nmethods s nm)"
  shows "ZNMethodUnlinkClosure_do_nmethod rt nm c s =
     Inr (c, s\<lparr>trace := trace s @
        [ZLocker_lock (lock_for_nmethod s nm), Flush_dependencies nm False,
         Unlink_from_method nm False, ZLocker_unlock (lock_for_nmethod s nm)]\<rparr>)"
  using assms
  by (simp add: ZNMethodUnlinkClosure_do_nmethod_def Let_def emit_def
      flush_dependencies_def unlink_from_method_def)

lemma do_nmethod_live:
  assumes "\<not> failed c" and "is_alive (nmethods s nm)" and "\<not> is_unloading (nmethods s nm)"
    and "gc_data s nm = Some data" and "data_oops data = Some snapshot"
  shows "\<exists>s2 s'. 
     nmethod_oops_do rt nm (heal_oop rt) (emit (ZLocker_lock (lock_for_nmethod s nm)) s) = Inr s2 \<and>
     ZNMethodUnlinkClosure_do_nmethod rt nm c s =
       Inr (if fst (unload_caches rt nm (unloading_occurred c) (ic_state s)) then c
            else c\<lparr>failed := True\<rparr>, s') \<and>
     trace s' = trace s2
       @ (if has_barrier_set_nmethod rt then [BarrierSetNMethod_disarm nm] else [])
       @ [Unload_nmethod_caches nm (unloading_occurred c)
            (fst (unload_caches rt nm (unloading_occurred c) (ic_state s))),
          ZLocker_unlock (lock_for_nmethod s nm)] \<and>
     nmethods s' = (if has_barrier_set_nmethod rt
                    then (nmethods s)(nm := (nmethods s nm)\<lparr>armed := False\<rparr>) else nmethods s) \<and>
     table s' = table s \<and> mem s' = mem s2 \<and>
     ic_state s' = snd (unload_caches rt nm (unloading_occurred c) (ic_state s))"
proof -
  let ?s1 = "emit (ZLocker_lock (lock_for_nmethod s nm)) s"
  have reg1: "gc_data ?s1 nm = Some data"
    using assms(4) by simp
  from nmethod_oops_do_registered [OF reg1 assms(5) refl refl, of rt "heal_oop rt"]
  obtain s2 where s2: "nmethod_oops_do rt nm (heal_oop rt) ?s1 = Inr s2"
    "nmethods s2 = nmethods ?s1" "table s2 = table ?s1" "ic_state s2 = ic_state ?s1"
    by blast
  show ?thesis
    using assms(1-3) s2
    by (simp add: ZNMethodUnlinkClosure_do_nmethod_def Let_def unload_nmethod_caches_eq
        set_failed_def)
qed

lemma do_nmethod_frame:
  assumes "ZNMethodUnlinkClosure_do_nmethod rt nm c s = Inr (c', s')"
  shows "table s' = table s \<and> (\<forall>n. gc_data s' n = gc_data s n) \<and>
     (\<forall>n. is_alive (nmethods s' n) = is_alive (nmethods s n)) \<and>
     (\<forall>n. is_unloading (nmethods s' n) = is_unloading (nmethods s n)) \<and>
     unloading_occurred c' = unloading_occurred c \<and>
     (\<exists>evs. trace s' = trace s @ evs \<and>
        failed c' = (failed c \<or> (\<exists>n b. Unload_nmethod_caches n b False \<in> set evs)))"
proof -
  consider (skip) "failed c \<or> \<not> is_alive (nmethods s nm)"
    | (unloading) "\<not> failed c" "is_alive (nmethods s nm)" "is_unloading (nmethods s nm)"
    | (live) "\<not> failed c" "is_alive (nmethods s nm)" "\<not> is_unloading (nmethods s nm)"
    by blast
  then show ?thesis
  proof cases
    case skip
    from do_nmethod_skipped [OF skip, of rt] assms show ?thesis by auto
  next
    case unloading
    from do_nmethod_unloading [OF unloading, of rt] assms show ?thesis
      by (auto simp: gc_data_def)
  next
    case live
    let ?s1 = "emit (ZLocker_lock (lock_for_nmethod s nm)) s"
    from assms live obtain s2 where s2: "nmethod_oops_do rt nm (heal_oop rt) ?s1 = Inr s2"
      by (auto simp: ZNMethodUnlinkClosure_do_nmethod_def Let_def split: sum.splits)
    from nmethod_oops_do_Inr [OF s2] obtain data snapshot
      where reg: "gc_data s nm = Some data" "data_oops data = Some snapshot"
      by auto
    from nmethod_oops_do_frame [OF s2] obtain evs where evs:
      "trace s2 = trace s @ ZLocker_lock (lock_for_nmethod s nm) # evs"
      "\<forall>e\<in>set evs. (\<exists>p. e = Do_oop p) \<or> e = Fix_oop_relocations nm"
      by auto
    from do_nmethod_live [OF live reg, of rt] s2 assms
    have c': "c' = (if fst (unload_caches rt nm (unloading_occurred c) (ic_state s)) then c
            else c\<lparr>failed := True\<rparr>)"
      and tr: "trace s' = trace s2
       @ (if has_barrier_set_nmethod rt then [BarrierSetNMethod_disarm nm] else [])
       @ [Unload_nmethod_caches nm (unloading_occurred c)
            (fst (unload_caches rt nm (unloading_occurred c) (ic_state s))),
          ZLocker_unlock (lock_for_nmethod s nm)]"
      and nms: "nmethods s' = (if has_barrier_set_nmethod rt
                    then (nmethods s)(nm := (nmethods s nm)\<lparr>armed := False\<rparr>) else nmethods s)"
      and tb: "table s' = table s"
      by auto
    have "\<exists>evs'. trace s' = trace s @ evs' \<and>
        failed c' = (failed c \<or> (\<exists>n b. Unload_nmethod_caches n b False \<in> set evs'))"
      using evs live(1) unfolding tr c' by auto
    with nms tb c' show ?thesis
      by (auto simp: gc_data_def)
  qed
qed

lemma unlink_entries_frame:
  assumes "nmethods_do_entries (ZNMethodUnlinkClosure_do_nmethod rt) ns c s = Inr (c', s')"
  shows "table s' = table s \<and> (\<forall>n. gc_data s' n = gc_data s n) \<and>
     (\<forall>n. is_alive (nmethods s' n) = is_alive (nmethods s n)) \<and>
     (\<forall>n. is_unloading (nmethods s' n) = is_unloading (nmethods s n)) \<and>
     unloading_occurred c' = unloading_occurred c \<and>
     (\<exists>evs. trace s' = trace s @ evs \<and>
        failed c' = (failed c \<or> (\<exists>n b. Unload_nmethod_caches n b False \<in> set evs)))"
  using assms
proof (induction ns arbitrary: c s)
  case Nil
  then show ?case by simp
next
  case (Cons nm ns)
  from Cons.prems obtain c1 s1
    where step: "ZNMethodUnlinkClosure_do_nmethod rt nm c s = Inr (c1, s1)"
      and rest: "nmethods_do_entries (ZNMethodUnlinkClosure_do_nmethod rt) ns c1 s1 = Inr (c', s')"
    by (auto split: sum.splits)
  from do_nmethod_frame [OF step] obtain evs1 where f1:
    "table s1 = table s" "\<forall>n. gc_data s1 n = gc_data s n"
    "\<forall>n. is_alive (nmethods s1 n) = is_alive (nmethods s n)"
    "\<forall>n. is_unloading (nmethods s1 n) = is_unloading (nmethods s n)"
    "unloading_occurred c1 = unloading_occurred c"
    "trace s1 = trace s @ evs1"
    "failed c1 = (failed c \<or> (\<exists>n b. Unload_nmethod_caches n b False \<in> set evs1))"
    by blast
  from Cons.IH [OF rest] obtain evs2 where f2:
    "table s' = table s1" "\<forall>n. gc_data s' n = gc_data s1 n"
    "\<forall>n. is_alive (nmethods s' n) = is_alive (nmethods s1 n)"
    "\<forall>n. is_unloading (nmethods s' n) = is_unloading (nmethods s1 n)"
    "unloading_occurred c' = unloading_occurred c1"
    "trace s' = trace s1 @ evs2"
    "failed c' = (failed c1 \<or> (\<exists>n b. Unload_nmethod_caches n b False \<in> set evs2))"
    by blast
  have "trace s' = trace s @ (evs1 @ evs2)"
    using f1(6) f2(6) by simp
  moreover have "failed c' = (failed c \<or> (\<exists>n b. Unload_nmethod_caches n b False \<in> set (evs1 @ evs2)))"
    using f1(7) f2(7) by auto
  ultimately have "\<exists>evs. trace s' = trace s @ evs \<and>
        failed c' = (failed c \<or> (\<exists>n b. Unload_nmethod_caches n b False \<in> set evs))"
    by blast
  with f1(1-5) f2(1-5) show ?case by simp
qed

lemma nmethods_do_begin_end_fields [simp]:
  "trace (ZNMethodTable_nmethods_do_begin s) = trace s @ [Nmethods_do_begin]"
  "nmethods (ZNMethodTable_nmethods_do_begin s) = nmethods s"
  "table (ZNMethodTable_nmethods_do_begin s) = table s"
  "mem (ZNMethodTable_nmethods_do_begin s) = mem s"
  "ic_state (ZNMethodTable_nmethods_do_begin s) = ic_state s"
  "trace (ZNMethodTable_nmethods_do_end s) = trace s @ [Nmethods_do_end]"
  "nmethods (ZNMethodTable_nmethods_do_end s) = nmethods s"
  "table (ZNMethodTable_nmethods_do_end s) = table s"
  "mem (ZNMethodTable_nmethods_do_end s) = mem s"
  "ic_state (ZNMethodTable_nmethods_do_end s) = ic_state s"
  by (simp_all add: ZNMethodTable_nmethods_do_begin_def ZNMethodTable_nmethods_do_end_def)

lemma unlink_task_frame:
  assumes "ZNMethodUnlinkTask_run rt unloading s = Inr (ok, s1)"
  shows "table s1 = table s \<and> (\<forall>n. gc_data s1 n = gc_data s n) \<and>
     (\<forall>n. is_alive (nmethods s1 n) = is_alive (nmethods s n)) \<and>
     (\<forall>n. is_unloading (nmethods s1 n) = is_unloading (nmethods s n)) \<and>
     (\<exists>evs. trace s1 = trace s @ [Nmethods_do_begin] @ evs @ [Nmethods_do_end] \<and>
        ok = (\<not> (\<exists>n b. Unload_nmethod_caches n b False \<in> set evs)))"
proof -
  let ?s0 = "ZNMethodTable_nmethods_do_begin s"
  let ?c0 = "\<lparr>unloading_occurred = unloading, failed = False\<rparr>"
  from assms obtain c' s' where
    run: "nmethods_do_entries (ZNMethodUnlinkClosure_do_nmethod rt) (table s) ?c0 ?s0 = Inr (c', s')"
    and ok: "ok = (\<not> failed c')" and s1: "s1 = ZNMethodTable_nmethods_do_end s'"
    by (auto simp: ZNMethodUnlinkTask_run_def ZNMethodTable_nmethods_do_def Let_def split: sum.splits)
  from unlink_entries_frame [OF run] ok s1 show ?thesis
    by (auto simp: gc_data_def)
qed

lemma leave_and_refill_fields [simp]:
  "trace (leave_and_refill rt s) = trace s @ [STS_leave, Refill_ic_stubs, STS_join]"
  "nmethods (leave_and_refill rt s) = nmethods s"
  "table (leave_and_refill rt s) = table s"
  "mem (leave_and_refill rt s) = mem s"
  "ic_state (leave_and_refill rt s) = refill_stubs rt (ic_state s)"
  by (simp_all add: leave_and_refill_def refill_ic_stubs_def)

lemma unlink_frame:
  assumes "unlink rt unloading s = Some y"
  shows "\<forall>s'. y = Inr s' \<longrightarrow> table s' = table s \<and> (\<forall>n. gc_data s' n = gc_data s n)"
proof (rule unlink.raw_induct
    [where P = "\<lambda>rt unloading s y. \<forall>s'. y = Inr s' \<longrightarrow>
        table s' = table s \<and> (\<forall>n. gc_data s' n = gc_data s n)", OF _ assms], goal_cases)
  case (1 f rt unloading s y)
  show ?case
  proof (cases "ZNMethodUnlinkTask_run rt unloading s")
    case (Inl err)
    with 1(2) show ?thesis by auto
  next
    case (Inr r)
    obtain ok s1 where r: "r = (ok, s1)" by (cases r)
    from unlink_task_frame [OF Inr [unfolded r]]
    have f: "table s1 = table s" "\<forall>n. gc_data s1 n = gc_data s n" by auto
    show ?thesis
    proof (cases ok)
      case True
      with 1(2) Inr r f show ?thesis by auto
    next
      case False
      with 1(2) Inr r have "f rt unloading (leave_and_refill rt s1) = Some y" by simp
      from 1(1) [OF this] f show ?thesis by (auto simp: gc_data_def)
    qed
  qed
qed

lemma unlink_retries_returns:
  assumes "unlink_retries rt unloading s s0"
    and "ZNMethodUnlinkTask_run rt unloading s0 = Inr (True, s')"
  shows "unlink rt unloading s = Some (Inr s')"
  using assms
proof (induction rule: unlink_retries.induct)
  case (no_retry rt unloading s)
  then show ?case by (subst unlink.simps) simp
next
  case (retry rt unloading s s1 s0)
  then show ?case by (subst unlink.simps) simp
qed

lemma unlink_returned:
  assumes "unlink rt unloading s = Some y"
  shows "\<forall>s'. y = Inr s' \<longrightarrow>
     (\<exists>s0. unlink_retries rt unloading s s0 \<and> ZNMethodUnlinkTask_run rt unloading s0 = Inr (True, s'))"
proof (rule unlink.raw_induct
    [where P = "\<lambda>rt unloading s y. \<forall>s'. y = Inr s' \<longrightarrow>
       (\<exists>s0. unlink_retries rt unloading s s0 \<and>
          ZNMethodUnlinkTask_run rt unloading s0 = Inr (True, s'))", OF _ assms], goal_cases)
  case (1 f rt unloading s y)
  show ?case
  proof (cases "ZNMethodUnlinkTask_run rt unloading s")
    case (Inl err)
    with 1(2) show ?thesis by auto
  next
    case (Inr r)
    obtain ok s1 where r: "r = (ok, s1)" by (cases r)
    show ?thesis
    proof (cases ok)
      case True
      with 1(2) Inr r show ?thesis by (auto intro: unlink_retries.no_retry)
    next
      case False
      with 1(2) Inr r have "f rt unloading (leave_and_refill rt s1) = Some y" by simp
      from 1(1) [OF this] have IH: "\<forall>s'. y = Inr s' \<longrightarrow>
         (\<exists>s0. unlink_retries rt unloading (leave_and_refill rt s1) s0 \<and>
            ZNMethodUnlinkTask_run rt unloading s0 = Inr (True, s'))" .
      from Inr r False have failed_pass: "ZNMethodUnlinkTask_run rt unloading s = Inr (False, s1)"
        by simp
      show ?thesis
      proof (intro allI impI)
        fix s' assume "y = Inr s'"
        with IH obtain s0 where "unlink_retries rt unloading (leave_and_refill rt s1) s0"
          and "ZNMethodUnlinkTask_run rt unloading s0 = Inr (True, s')"
          by blast
        with failed_pass show "\<exists>s0. unlink_retries rt unloading s s0 \<and>
            ZNMethodUnlinkTask_run rt unloading s0 = Inr (True, s')"
          by (blast intro: unlink_retries.retry)
      qed
    qed
  qed
qed

text \<open>A pass over entries that are unloading whenever they are alive.\<close>

lemma lock_for_nmethod_trace [simp]:
  "lock_for_nmethod (s\<lparr>trace := t\<rparr>) nm = lock_for_nmethod s nm"
  by (simp add: lock_for_nmethod_def gc_data_def)

lemma unloading_entries:
  assumes "\<forall>nm\<in>set ns. is_alive (nmethods s nm) \<longrightarrow> is_unloading (nmethods s nm)"
    and "\<not> failed c"
  shows "nmethods_do_entries (ZNMethodUnlinkClosure_do_nmethod rt) ns c s =
     Inr (c, s\<lparr>trace := trace s @ concat (map (\<lambda>nm.
        if is_alive (nmethods s nm)
        then [ZLocker_lock (lock_for_nmethod s nm), Flush_dependencies nm False,
              Unlink_from_method nm False, ZLocker_unlock (lock_for_nmethod s nm)]
        else []) ns)\<rparr>)"
  using assms
proof (induction ns arbitrary: s)
  case Nil
  show ?case by simp
next
  case (Cons nm ns)
  show ?case
  proof (cases "is_alive (nmethods s nm)")
    case False
    with Cons.prems have "ZNMethodUnlinkClosure_do_nmethod rt nm c s = Inr (c, s)"
      by (intro do_nmethod_skipped) simp
    with Cons False show ?thesis by simp
  next
    case True
    let ?evs = "[ZLocker_lock (lock_for_nmethod s nm), Flush_dependencies nm False,
              Unlink_from_method nm False, ZLocker_unlock (lock_for_nmethod s nm)]"
    let ?s1 = "s\<lparr>trace := trace s @ ?evs\<rparr>"
    from Cons.prems True have "is_unloading (nmethods s nm)" by simp
    with Cons.prems True
    have step: "ZNMethodUnlinkClosure_do_nmethod rt nm c s = Inr (c, ?s1)"
      by (intro do_nmethod_unloading) simp_all
    have "\<forall>n\<in>set ns. is_alive (nmethods ?s1 n) \<longrightarrow> is_unloading (nmethods ?s1 n)"
      using Cons.prems by simp
    from Cons.IH [OF this Cons.prems(2)] step True show ?thesis
      by (simp cong: if_cong)
  qed
qed

subsection \<open>Purging, field by field\<close>

lemma make_unloaded_fields [simp]:
  "trace (make_unloaded nm s) = trace s @ [Make_unloaded nm]"
  "nmethods (make_unloaded nm s) = (nmethods s)(nm := (nmethods s nm)\<lparr>is_alive := False\<rparr>)"
  "table (make_unloaded nm s) = table s"
  "mem (make_unloaded nm s) = mem s"
  "ic_state (make_unloaded nm s) = ic_state s"
  by (simp_all add: make_unloaded_def)

lemma purge_entries:
  "\<exists>s'. nmethods_do_entries ZNMethodPurgeClosure_do_nmethod ns c s = Inr (c, s') \<and>
     (\<forall>n. nmethods s' n =
        (if n \<in> set ns \<and> is_alive (nmethods s n) \<and> is_unloading (nmethods s n)
         then (nmethods s n)\<lparr>is_alive := False\<rparr> else nmethods s n)) \<and>
     table s' = table s \<and> mem s' = mem s \<and> ic_state s' = ic_state s \<and>
     (distinct ns \<longrightarrow> trace s' = trace s @ map Make_unloaded
        (filter (\<lambda>n. is_alive (nmethods s n) \<and> is_unloading (nmethods s n)) ns))"
proof (induction ns arbitrary: s)
  case Nil
  show ?case by simp
next
  case (Cons nm ns)
  let ?P = "\<lambda>s n. is_alive (nmethods s n) \<and> is_unloading (nmethods s n)"
  show ?case
  proof (cases "?P s nm")
    case False
    with Cons.IH [of s] show ?thesis
      by (auto simp: ZNMethodPurgeClosure_do_nmethod_def)
  next
    case True
    let ?s1 = "make_unloaded nm s"
    from Cons.IH [of ?s1] obtain s' where s':
      "nmethods_do_entries ZNMethodPurgeClosure_do_nmethod ns c ?s1 = Inr (c, s')"
      "\<forall>n. nmethods s' n = (if n \<in> set ns \<and> ?P ?s1 n
         then (nmethods ?s1 n)\<lparr>is_alive := False\<rparr> else nmethods ?s1 n)"
      "table s' = table ?s1" "mem s' = mem ?s1" "ic_state s' = ic_state ?s1"
      "distinct ns \<longrightarrow> trace s' = trace ?s1 @ map Make_unloaded (filter (?P ?s1) ns)"
      by blast
    have run: "nmethods_do_entries ZNMethodPurgeClosure_do_nmethod (nm # ns) c s = Inr (c, s')"
      using True s'(1) by (simp add: ZNMethodPurgeClosure_do_nmethod_def)
    have nms: "nmethods s' n = (if n \<in> set (nm # ns) \<and> ?P s n
         then (nmethods s n)\<lparr>is_alive := False\<rparr> else nmethods s n)" for n
      using s'(2) True by (cases "n = nm") auto
    have tr: "trace s' = trace s @ map Make_unloaded (filter (?P s) (nm # ns))"
      if d: "distinct (nm # ns)"
    proof -
      have "filter (?P ?s1) ns = filter (?P s) ns"
        using d by (intro filter_cong [OF refl]) auto
      with s'(6) d True show ?thesis by simp
    qed
    from run nms tr s'(3-5) show ?thesis by simp
  qed
qed

subsection \<open>Evaluating the example\<close>

lemmas example_defs =
  example_runtime_def example_runtime_no_barrier_def example_nmethods_def example_mem_def
  example_start_def example_data_def example_registered_def example_unloading_def

lemma example_unlink_returns:
  "\<exists>s'. unlink example_runtime True example_registered = Some (Inr s') \<and>
     trace s' =
       [Nmethods_do_begin,
        ZLocker_lock (Some (Lock_of 1)), Do_oop 10, Do_oop 20, Do_oop 21,
        BarrierSetNMethod_disarm 1, Unload_nmethod_caches 1 True True,
        ZLocker_unlock (Some (Lock_of 1)),
        ZLocker_lock (Some (Lock_of 2)), Do_oop 12, Fix_oop_relocations 2,
        BarrierSetNMethod_disarm 2, Unload_nmethod_caches 2 True False,
        ZLocker_unlock (Some (Lock_of 2)),
        Nmethods_do_end,
        STS_leave, Refill_ic_stubs, STS_join,
        Nmethods_do_begin,
        ZLocker_lock (Some (Lock_of 1)), Do_oop 10, Do_oop 20, Do_oop 21,
        BarrierSetNMethod_disarm 1, Unload_nmethod_caches 1 True True,
        ZLocker_unlock (Some (Lock_of 1)),
        ZLocker_lock (Some (Lock_of 2)), Do_oop 12, Fix_oop_relocations 2,
        BarrierSetNMethod_disarm 2, Unload_nmethod_caches 2 True True,
        ZLocker_unlock (Some (Lock_of 2)),
        ZLocker_lock (Some (Lock_of 3)), Flush_dependencies 3 False,
        Unlink_from_method 3 False, ZLocker_unlock (Some (Lock_of 3)),
        Nmethods_do_end]"
proof -
  have "case unlink example_runtime True example_registered of
          Some (Inr s') \<Rightarrow> trace s' =
       [Nmethods_do_begin,
        ZLocker_lock (Some (Lock_of 1)), Do_oop 10, Do_oop 20, Do_oop 21,
        BarrierSetNMethod_disarm 1, Unload_nmethod_caches 1 True True,
        ZLocker_unlock (Some (Lock_of 1)),
        ZLocker_lock (Some (Lock_of 2)), Do_oop 12, Fix_oop_relocations 2,
        BarrierSetNMethod_disarm 2, Unload_nmethod_caches 2 True False,
        ZLocker_unlock (Some (Lock_of 2)),
        Nmethods_do_end,
        STS_leave, Refill_ic_stubs, STS_join,
        Nmethods_do_begin,
        ZLocker_lock (Some (Lock_of 1)), Do_oop 10, Do_oop 20, Do_oop 21,
        BarrierSetNMethod_disarm 1, Unload_nmethod_caches 1 True True,
        ZLocker_unlock (Some (Lock_of 1)),
        ZLocker_lock (Some (Lock_of 2)), Do_oop 12, Fix_oop_relocations 2,
        BarrierSetNMethod_disarm 2, Unload_nmethod_caches 2 True True,
        ZLocker_unlock (Some (Lock_of 2)),
        ZLocker_lock (Some (Lock_of 3)), Flush_dependencies 3 False,
        Unlink_from_method 3 False, ZLocker_unlock (Some (Lock_of 3)),
        Nmethods_do_end]
        | _ \<Rightarrow> False"
    by code_simp
  then show ?thesis
    by (auto split: option.splits sum.splits)
qed

lemma example_registered_invariant: "attachment_invariant example_registered"
  by (simp add: attachment_invariant_def example_defs gc_data_def)

subsection \<open>The attachment invariant, operation by operation\<close>

lemma attachment_invariant_frame:
  assumes "attachment_invariant s" and "table s' = table s" and "\<forall>n. gc_data s' n = gc_data s n"
  shows "attachment_invariant s'"
  using assms by (simp add: attachment_invariant_def)

lemma attachment_invariant_register:
  assumes "attachment_invariant s"
  shows "attachment_invariant (register_nmethod rt nm s)"
  using assms
  by (auto simp: attachment_invariant_def register_nmethod_fields attach_gc_data_fields)

lemma attachment_invariant_unregister:
  assumes "attachment_invariant s" and "unregister_nmethod current nm s = Inr s'"
  shows "attachment_invariant s'"
proof -
  from assms(2) have own: "owns_CodeCache_lock current"
    by (auto simp: unregister_nmethod_def split: if_splits)
  from unregister_nmethod_locked [OF own, of nm s] assms
  show ?thesis by (auto simp: attachment_invariant_def)
qed

lemma attachment_invariant_purge:
  assumes "attachment_invariant s" and "purge s = Inr s'"
  shows "attachment_invariant s'"
proof -
  from purge_entries [of "table s" "()" "ZNMethodTable_nmethods_do_begin s"] assms(2)
  have "table s' = table s" and "\<forall>n. gc_data s' n = gc_data s n"
    by (auto simp: purge_def ZNMethodTable_nmethods_do_def Let_def gc_data_def)
  with assms(1) show ?thesis by (rule attachment_invariant_frame)
qed

lemma register_nmethod_new_events:
  "new_events s (register_nmethod rt nm s) =
     (case gc_data s nm of None \<Rightarrow> [ZNMethodData_created nm] | Some d \<Rightarrow> [])
     @ [ZNMethodDataOops_created
          \<lparr>immediates = fst (find_oop_relocations (relocs (nmethods s nm)) [] False),
           has_non_immediates = snd (find_oop_relocations (relocs (nmethods s nm)) [] False)\<rparr>,
        ZNMethodDataOops_destroyed (case gc_data s nm of None \<Rightarrow> None | Some d \<Rightarrow> data_oops d),
        Table_register nm]
     @ (if has_barrier_set_nmethod rt then [BarrierSetNMethod_disarm nm] else [])"
  by (simp add: new_events_def register_nmethod_fields attach_gc_data_fields)

section \<open>Verified properties\<close>

text \<open>
  C1. For a registered nmethod (its record and a snapshot are attached) the visitor
  returns, and what it did is: the callback on the slots of the oops table whose
  current value is not the non-oop word, in order; then the callback on the immediate
  slots of the snapshot whose current value is not the non-oop word, in order; then
  \<^verbatim>\<open>fix_oop_relocations\<close> exactly when the snapshot has non-immediates; nothing else.
  The callback is invoked on slots of the table and of the immediate list only. When the
  callback never writes or removes the non-oop word in these slots, the slots visited
  are those that do not hold it at the start.
\<close>

theorem nmethod_oops_do_three_parts:
  assumes "gc_data s nm = Some data" and "data_oops data = Some snapshot"
  shows
    "let w = non_oop_word rt;
         tbl = [oops_begin (nmethods s nm) ..< oops_end (nmethods s nm)];
         imm = immediates snapshot;
         visited_tbl = visited_slots w cl tbl (mem s);
         visited_imm = visited_slots w cl imm (store_after w cl tbl (mem s))
     in (\<exists>s'. nmethod_oops_do rt nm cl s = Inr s' \<and>
           trace s' = trace s @ map Do_oop visited_tbl @ map Do_oop visited_imm
             @ (if has_non_immediates snapshot then [Fix_oop_relocations nm] else [])) \<and>
        set visited_tbl \<subseteq> set tbl \<and> set visited_imm \<subseteq> set imm \<and>
        ((\<forall>p. keeps_sentinel w (slots_of (nmethods s nm) snapshot) (cl p)) \<longrightarrow>
           visited_tbl = filter (\<lambda>p. mem s p \<noteq> w) tbl \<and>
           visited_imm = filter (\<lambda>p. mem s p \<noteq> w) imm)"
proof -
  let ?w = "non_oop_word rt"
  let ?tbl = "[oops_begin (nmethods s nm) ..< oops_end (nmethods s nm)]"
  let ?A = "slots_of (nmethods s nm) snapshot"
  let ?m1 = "store_after ?w cl ?tbl (mem s)"
  have run: "\<exists>s'. nmethod_oops_do rt nm cl s = Inr s' \<and>
      trace s' = trace s @ map Do_oop (visited_slots ?w cl ?tbl (mem s))
        @ map Do_oop (visited_slots ?w cl (immediates snapshot) ?m1)
        @ (if has_non_immediates snapshot then [Fix_oop_relocations nm] else [])"
    using nmethod_oops_do_registered [OF assms refl refl, of rt cl] by blast
  have stable: "visited_slots ?w cl ?tbl (mem s) = filter (\<lambda>p. mem s p \<noteq> ?w) ?tbl \<and>
      visited_slots ?w cl (immediates snapshot) ?m1
        = filter (\<lambda>p. mem s p \<noteq> ?w) (immediates snapshot)"
    if cl: "\<forall>p. keeps_sentinel ?w ?A (cl p)"
  proof -
    have tblA: "set ?tbl \<subseteq> ?A" and immA: "set (immediates snapshot) \<subseteq> ?A"
      by (auto simp: slots_of_def)
    have "filter (\<lambda>p. ?m1 p \<noteq> ?w) (immediates snapshot)
        = filter (\<lambda>p. mem s p \<noteq> ?w) (immediates snapshot)"
      using immA store_after_stable [OF cl] by (intro filter_cong [OF refl]) auto
    then show ?thesis
      using visited_slots_stable [OF cl tblA] visited_slots_stable [OF cl immA] by simp
  qed
  show ?thesis
    unfolding Let_def
    using run stable visited_slots_subset by blast
qed

theorem nmethod_oops_do_three_parts_witness:
  "gc_data example_registered 1 = Some (example_data 1) \<and>
   data_oops (example_data 1) = Some \<lparr>immediates = [20, 21], has_non_immediates = False\<rparr> \<and>
   (\<forall>p. keeps_sentinel 99
      (slots_of (nmethods example_registered 1) \<lparr>immediates = [20, 21], has_non_immediates = False\<rparr>)
      (heal_oop example_runtime p)) \<and>
   (\<exists>s'. nmethod_oops_do example_runtime 1 (heal_oop example_runtime) example_registered = Inr s' \<and>
      trace s' = [Do_oop 10, Do_oop 20, Do_oop 21])"
proof -
  have reg: "gc_data example_registered 1 = Some (example_data 1)"
    by (simp add: example_defs gc_data_def)
  have snap: "data_oops (example_data 1) = Some \<lparr>immediates = [20, 21], has_non_immediates = False\<rparr>"
    by (simp add: example_defs)
  have keeps: "\<forall>p. keeps_sentinel 99
      (slots_of (nmethods example_registered 1) \<lparr>immediates = [20, 21], has_non_immediates = False\<rparr>)
      (heal_oop example_runtime p)"
    by (simp add: keeps_sentinel_def example_runtime_def)
  have w: "non_oop_word example_runtime = 99"
    by (simp add: example_runtime_def)
  have tbl: "[oops_begin (nmethods example_registered 1) ..< oops_end (nmethods example_registered 1)] = [10, 11]"
    by (simp add: example_defs upt_conv_Cons)
  have m: "mem example_registered = example_mem" "trace example_registered = []"
    by (simp_all add: example_defs)
  have f: "filter (\<lambda>p. example_mem p \<noteq> 99) [10, 11] = [10]"
      "filter (\<lambda>p. example_mem p \<noteq> 99) [20, 21] = [20, 21]"
    by (simp_all add: example_mem_def)
  let ?cl = "heal_oop example_runtime"
  let ?v1 = "visited_slots 99 ?cl [10, 11] example_mem"
  let ?v2 = "visited_slots 99 ?cl [20, 21] (store_after 99 ?cl [10, 11] example_mem)"
  note claim = nmethod_oops_do_three_parts [OF reg snap, of example_runtime ?cl,
      unfolded Let_def w tbl m, simplified snap ZNMethodDataOops.simps]
  from claim keeps have "?v1 = filter (\<lambda>p. example_mem p \<noteq> 99) [10, 11]"
    and "?v2 = filter (\<lambda>p. example_mem p \<noteq> 99) [20, 21]"
    by blast+
  then have v: "?v1 = [10]" "?v2 = [20, 21]"
    by (simp_all only: f)
  from claim have "\<exists>s'. nmethod_oops_do example_runtime 1 ?cl example_registered = Inr s' \<and>
      trace s' = [] @ map Do_oop ?v1 @ map Do_oop ?v2 @ []"
    by (simp del: visited_slots.simps store_after.simps)
  then have "\<exists>s'. nmethod_oops_do example_runtime 1 ?cl example_registered = Inr s' \<and>
      trace s' = [Do_oop 10, Do_oop 20, Do_oop 21]"
    unfolding v by simp
  with reg snap keeps show ?thesis by blast
qed

text \<open>
  C2, as the code has it. With the failure flag set, or for an nmethod that is not
  alive, \<^verbatim>\<open>do_nmethod\<close> does nothing at all. For an alive nmethod that is unloading it
  takes the lock of the record, flushes the dependencies, unlinks the nmethod from its
  method and releases the lock; it neither visits oops, nor disarms, nor releases
  caches, and leaves the flag unset. For an alive nmethod that is not unloading and has
  its record and snapshot, it takes the lock, runs the visitor with the healing closure,
  calls \<^verbatim>\<open>disarm_nmethod\<close>, which disarms the entry barrier when the barrier set has
  an nmethod barrier and does nothing when it has none, then releases the caches,
  sets the flag exactly when that failed, and releases the lock.
\<close>

theorem unlink_do_nmethod_steps:
  "(failed c \<or> \<not> is_alive (nmethods s nm) \<longrightarrow>
      ZNMethodUnlinkClosure_do_nmethod rt nm c s = Inr (c, s)) \<and>
   (\<not> failed c \<and> is_alive (nmethods s nm) \<and> is_unloading (nmethods s nm) \<longrightarrow>
      ZNMethodUnlinkClosure_do_nmethod rt nm c s =
        Inr (c, s\<lparr>trace := trace s @
          [ZLocker_lock (lock_for_nmethod s nm), Flush_dependencies nm False,
           Unlink_from_method nm False, ZLocker_unlock (lock_for_nmethod s nm)]\<rparr>)) \<and>
   (\<not> failed c \<and> is_alive (nmethods s nm) \<and> \<not> is_unloading (nmethods s nm) \<and>
    gc_data s nm = Some data \<and> data_oops data = Some snapshot \<longrightarrow>
      (\<exists>s2 c' s'.
         nmethod_oops_do rt nm (heal_oop rt) (emit (ZLocker_lock (Some (lock data))) s) = Inr s2 \<and>
         ZNMethodUnlinkClosure_do_nmethod rt nm c s = Inr (c', s') \<and>
         trace s' = trace s2
           @ (if has_barrier_set_nmethod rt then [BarrierSetNMethod_disarm nm] else [])
           @ [Unload_nmethod_caches nm (unloading_occurred c) (\<not> failed c'),
              ZLocker_unlock (Some (lock data))] \<and>
         failed c' = (\<not> fst (unload_caches rt nm (unloading_occurred c) (ic_state s))) \<and>
         unloading_occurred c' = unloading_occurred c \<and>
         armed (nmethods s' nm) = (armed (nmethods s nm) \<and> \<not> has_barrier_set_nmethod rt) \<and>
         (\<forall>n. n \<noteq> nm \<longrightarrow> nmethods s' n = nmethods s n) \<and>
         mem s' = mem s2 \<and> table s' = table s))"
proof (intro conjI impI)
  assume "failed c \<or> \<not> is_alive (nmethods s nm)"
  then show "ZNMethodUnlinkClosure_do_nmethod rt nm c s = Inr (c, s)"
    by (rule do_nmethod_skipped)
next
  assume "\<not> failed c \<and> is_alive (nmethods s nm) \<and> is_unloading (nmethods s nm)"
  then show "ZNMethodUnlinkClosure_do_nmethod rt nm c s =
        Inr (c, s\<lparr>trace := trace s @
          [ZLocker_lock (lock_for_nmethod s nm), Flush_dependencies nm False,
           Unlink_from_method nm False, ZLocker_unlock (lock_for_nmethod s nm)]\<rparr>)"
    by (intro do_nmethod_unloading) simp_all
next
  assume a: "\<not> failed c \<and> is_alive (nmethods s nm) \<and> \<not> is_unloading (nmethods s nm) \<and>
    gc_data s nm = Some data \<and> data_oops data = Some snapshot"
  then have lk: "lock_for_nmethod s nm = Some (lock data)"
    by (simp add: lock_for_nmethod_def)
  let ?ok = "fst (unload_caches rt nm (unloading_occurred c) (ic_state s))"
  from a have "\<not> failed c" "is_alive (nmethods s nm)" "\<not> is_unloading (nmethods s nm)"
    "gc_data s nm = Some data" "data_oops data = Some snapshot"
    by simp_all
  from do_nmethod_live [OF this, of rt] obtain s2 s' where live:
    "nmethod_oops_do rt nm (heal_oop rt) (emit (ZLocker_lock (Some (lock data))) s) = Inr s2"
    "ZNMethodUnlinkClosure_do_nmethod rt nm c s = Inr (if ?ok then c else c\<lparr>failed := True\<rparr>, s')"
    "trace s' = trace s2
       @ (if has_barrier_set_nmethod rt then [BarrierSetNMethod_disarm nm] else [])
       @ [Unload_nmethod_caches nm (unloading_occurred c) ?ok, ZLocker_unlock (Some (lock data))]"
    "nmethods s' = (if has_barrier_set_nmethod rt
                    then (nmethods s)(nm := (nmethods s nm)\<lparr>armed := False\<rparr>) else nmethods s)"
    "table s' = table s" "mem s' = mem s2"
    unfolding lk by blast
  let ?c' = "if ?ok then c else c\<lparr>failed := True\<rparr>"
  have c': "failed ?c' = (\<not> ?ok)" "unloading_occurred ?c' = unloading_occurred c"
    using a by simp_all
  have "trace s' = trace s2
           @ (if has_barrier_set_nmethod rt then [BarrierSetNMethod_disarm nm] else [])
           @ [Unload_nmethod_caches nm (unloading_occurred c) (\<not> failed ?c'),
              ZLocker_unlock (Some (lock data))]"
    using live(3) c'(1) by simp
  moreover have "armed (nmethods s' nm) = (armed (nmethods s nm) \<and> \<not> has_barrier_set_nmethod rt)"
    and "\<forall>n. n \<noteq> nm \<longrightarrow> nmethods s' n = nmethods s n"
    using live(4) by simp_all
  ultimately show "\<exists>s2 c' s'.
         nmethod_oops_do rt nm (heal_oop rt) (emit (ZLocker_lock (Some (lock data))) s) = Inr s2 \<and>
         ZNMethodUnlinkClosure_do_nmethod rt nm c s = Inr (c', s') \<and>
         trace s' = trace s2
           @ (if has_barrier_set_nmethod rt then [BarrierSetNMethod_disarm nm] else [])
           @ [Unload_nmethod_caches nm (unloading_occurred c) (\<not> failed c'),
              ZLocker_unlock (Some (lock data))] \<and>
         failed c' = (\<not> fst (unload_caches rt nm (unloading_occurred c) (ic_state s))) \<and>
         unloading_occurred c' = unloading_occurred c \<and>
         armed (nmethods s' nm) = (armed (nmethods s nm) \<and> \<not> has_barrier_set_nmethod rt) \<and>
         (\<forall>n. n \<noteq> nm \<longrightarrow> nmethods s' n = nmethods s n) \<and>
         mem s' = mem s2 \<and> table s' = table s"
    using live(1,2,5,6) c' by blast
qed

theorem unlink_do_nmethod_steps_witness:
  "ZNMethodUnlinkClosure_do_nmethod example_runtime 1
      \<lparr>unloading_occurred = True, failed = True\<rparr> example_registered
     = Inr (\<lparr>unloading_occurred = True, failed = True\<rparr>, example_registered) \<and>
   ZNMethodUnlinkClosure_do_nmethod example_runtime 3
      \<lparr>unloading_occurred = True, failed = False\<rparr> example_registered
     = Inr (\<lparr>unloading_occurred = True, failed = False\<rparr>,
            example_registered\<lparr>trace :=
              [ZLocker_lock (Some (Lock_of 3)), Flush_dependencies 3 False,
               Unlink_from_method 3 False, ZLocker_unlock (Some (Lock_of 3))]\<rparr>) \<and>
   (\<exists>c' s'.
      ZNMethodUnlinkClosure_do_nmethod example_runtime 1
        \<lparr>unloading_occurred = True, failed = False\<rparr> example_registered = Inr (c', s') \<and>
      trace s' = [ZLocker_lock (Some (Lock_of 1)), Do_oop 10, Do_oop 20, Do_oop 21,
                  BarrierSetNMethod_disarm 1, Unload_nmethod_caches 1 True True,
                  ZLocker_unlock (Some (Lock_of 1))] \<and>
      \<not> failed c' \<and> \<not> armed (nmethods s' 1))"
proof -
  let ?c = "\<lparr>unloading_occurred = True, failed = False\<rparr>"
  let ?cf = "\<lparr>unloading_occurred = True, failed = True\<rparr>"
  have ex: "is_alive (nmethods example_registered 1)" "\<not> is_unloading (nmethods example_registered 1)"
    "is_alive (nmethods example_registered 3)" "is_unloading (nmethods example_registered 3)"
    "gc_data example_registered 1 = Some (example_data 1)"
    "data_oops (example_data 1) = Some \<lparr>immediates = [20, 21], has_non_immediates = False\<rparr>"
    "lock (example_data 1) = Lock_of 1"
    "lock_for_nmethod example_registered 3 = Some (Lock_of 3)"
    "trace example_registered = []" "has_barrier_set_nmethod example_runtime"
    "fst (unload_caches example_runtime 1 True (ic_state example_registered))"
    by (simp_all add: example_defs gc_data_def lock_for_nmethod_def)
  have visit: "case nmethod_oops_do example_runtime 1 (heal_oop example_runtime)
         (emit (ZLocker_lock (Some (Lock_of 1))) example_registered) of
       Inr s2 \<Rightarrow> trace s2 = [ZLocker_lock (Some (Lock_of 1)), Do_oop 10, Do_oop 20, Do_oop 21]
     | Inl err \<Rightarrow> False"
    by code_simp
  note skip = unlink_do_nmethod_steps [of ?cf example_registered 1 example_runtime]
  note unl = unlink_do_nmethod_steps [of ?c example_registered 3 example_runtime]
  note live = unlink_do_nmethod_steps [of ?c example_registered 1 example_runtime "example_data 1"
      "\<lparr>immediates = [20, 21], has_non_immediates = False\<rparr>"]
  from skip have "ZNMethodUnlinkClosure_do_nmethod example_runtime 1 ?cf example_registered
     = Inr (?cf, example_registered)"
    by simp
  moreover from unl ex have "ZNMethodUnlinkClosure_do_nmethod example_runtime 3 ?c example_registered
     = Inr (?c, example_registered\<lparr>trace :=
              [ZLocker_lock (Some (Lock_of 3)), Flush_dependencies 3 False,
               Unlink_from_method 3 False, ZLocker_unlock (Some (Lock_of 3))]\<rparr>)"
    by simp
  moreover from live ex visit have "\<exists>c' s'.
      ZNMethodUnlinkClosure_do_nmethod example_runtime 1 ?c example_registered = Inr (c', s') \<and>
      trace s' = [ZLocker_lock (Some (Lock_of 1)), Do_oop 10, Do_oop 20, Do_oop 21,
                  BarrierSetNMethod_disarm 1, Unload_nmethod_caches 1 True True,
                  ZLocker_unlock (Some (Lock_of 1))] \<and>
      \<not> failed c' \<and> \<not> armed (nmethods s' 1)"
    by (auto simp del: One_nat_def)
  ultimately show ?thesis by blast
qed

text \<open>
  C2 as it is stated does not hold: with a barrier set that has no nmethod barrier, an
  alive nmethod that is not unloading goes through the visitor and the release of the
  caches and is still armed afterwards; nothing was disarmed.
\<close>

theorem unlink_do_nmethod_counterexample:
  "\<not> failed \<lparr>unloading_occurred = True, failed = False\<rparr> \<and>
   is_alive (nmethods example_registered 1) \<and>
   \<not> is_unloading (nmethods example_registered 1) \<and>
   armed (nmethods example_registered 1) \<and>
   (\<exists>c' s'. ZNMethodUnlinkClosure_do_nmethod example_runtime_no_barrier 1
        \<lparr>unloading_occurred = True, failed = False\<rparr> example_registered = Inr (c', s') \<and>
      trace s' = [ZLocker_lock (Some (Lock_of 1)), Do_oop 10, Do_oop 20, Do_oop 21,
                  Unload_nmethod_caches 1 True True, ZLocker_unlock (Some (Lock_of 1))] \<and>
      armed (nmethods s' 1))"
proof -
  have "case ZNMethodUnlinkClosure_do_nmethod example_runtime_no_barrier 1
        \<lparr>unloading_occurred = True, failed = False\<rparr> example_registered of
      Inr (c', s') \<Rightarrow>
        trace s' = [ZLocker_lock (Some (Lock_of 1)), Do_oop 10, Do_oop 20, Do_oop 21,
                    Unload_nmethod_caches 1 True True, ZLocker_unlock (Some (Lock_of 1))] \<and>
        armed (nmethods s' 1)
    | Inl err \<Rightarrow> False"
    by code_simp
  then have "\<exists>c' s'. ZNMethodUnlinkClosure_do_nmethod example_runtime_no_barrier 1
        \<lparr>unloading_occurred = True, failed = False\<rparr> example_registered = Inr (c', s') \<and>
      trace s' = [ZLocker_lock (Some (Lock_of 1)), Do_oop 10, Do_oop 20, Do_oop 21,
                  Unload_nmethod_caches 1 True True, ZLocker_unlock (Some (Lock_of 1))] \<and>
      armed (nmethods s' 1)"
    by (cases "ZNMethodUnlinkClosure_do_nmethod example_runtime_no_barrier 1
        \<lparr>unloading_occurred = True, failed = False\<rparr> example_registered") auto
  moreover have "is_alive (nmethods example_registered 1)"
    "\<not> is_unloading (nmethods example_registered 1)" "armed (nmethods example_registered 1)"
    by (simp_all add: example_defs)
  ultimately show ?thesis by simp
qed

text \<open>
  C3. \<^verbatim>\<open>unlink\<close> returns a state exactly when, after some number of failed passes, each
  followed by leaving the suspendible thread set, refilling the stubs and joining again,
  a pass succeeds; what it returns is the state that pass leaves. A pass succeeds
  exactly when no \<^verbatim>\<open>unload_nmethod_caches\<close> in it returned false; once the flag is
  set, \<^verbatim>\<open>do_nmethod\<close> does nothing for the entries that follow. After a pass that
  succeeded \<^verbatim>\<open>unlink\<close> returns at once; after one that failed it goes on as \<^verbatim>\<open>unlink\<close>
  from the refilled state, with a new task, whose closure has its flag unset.
\<close>

theorem unlink_retries_until_success:
  "(unlink rt unloading s = Some (Inr s')) =
     (\<exists>s0. unlink_retries rt unloading s s0 \<and>
        ZNMethodUnlinkTask_run rt unloading s0 = Inr (True, s')) \<and>
   (\<forall>ok s1. ZNMethodUnlinkTask_run rt unloading s = Inr (ok, s1) \<longrightarrow>
      ok = (\<not> (\<exists>n b. Unload_nmethod_caches n b False \<in> set (new_events s s1))) \<and>
      (ok \<longrightarrow> unlink rt unloading s = Some (Inr s1)) \<and>
      (\<not> ok \<longrightarrow> unlink rt unloading s = unlink rt unloading (leave_and_refill rt s1))) \<and>
   (\<forall>nm c. failed c \<longrightarrow> ZNMethodUnlinkClosure_do_nmethod rt nm c s = Inr (c, s)) \<and>
   new_events s (leave_and_refill rt s) = [STS_leave, Refill_ic_stubs, STS_join] \<and>
   ic_state (leave_and_refill rt s) = refill_stubs rt (ic_state s) \<and>
   nmethods (leave_and_refill rt s) = nmethods s \<and>
   table (leave_and_refill rt s) = table s \<and>
   mem (leave_and_refill rt s) = mem s"
proof -
  have skip: "ZNMethodUnlinkClosure_do_nmethod rt nm c s = Inr (c, s)" if "failed c" for nm c
    using that by (intro do_nmethod_skipped) simp
  have ret: "(unlink rt unloading s = Some (Inr s')) =
     (\<exists>s0. unlink_retries rt unloading s s0 \<and>
        ZNMethodUnlinkTask_run rt unloading s0 = Inr (True, s'))"
    using unlink_returned [of rt unloading s "Inr s'"] unlink_retries_returns [of rt unloading s _ s']
    by blast
  have pass: "ok = (\<not> (\<exists>n b. Unload_nmethod_caches n b False \<in> set (new_events s s1))) \<and>
      (ok \<longrightarrow> unlink rt unloading s = Some (Inr s1)) \<and>
      (\<not> ok \<longrightarrow> unlink rt unloading s = unlink rt unloading (leave_and_refill rt s1))"
    if run: "ZNMethodUnlinkTask_run rt unloading s = Inr (ok, s1)" for ok s1
  proof -
    from unlink_task_frame [OF run] obtain evs where
      "trace s1 = trace s @ [Nmethods_do_begin] @ evs @ [Nmethods_do_end]"
      "ok = (\<not> (\<exists>n b. Unload_nmethod_caches n b False \<in> set evs))"
      by blast
    then have "ok = (\<not> (\<exists>n b. Unload_nmethod_caches n b False \<in> set (new_events s s1)))"
      by (simp add: new_events_def)
    moreover have "ok \<longrightarrow> unlink rt unloading s = Some (Inr s1)"
      using run by (subst unlink.simps) simp
    moreover have "\<not> ok \<longrightarrow> unlink rt unloading s = unlink rt unloading (leave_and_refill rt s1)"
      using run by (subst unlink.simps) simp
    ultimately show ?thesis by blast
  qed
  have "new_events s (leave_and_refill rt s) = [STS_leave, Refill_ic_stubs, STS_join]"
    by (simp add: new_events_def)
  with ret pass skip show ?thesis by simp
qed

theorem unlink_retries_until_success_witness:
  "\<exists>s1 s'. ZNMethodUnlinkTask_run example_runtime True example_registered = Inr (False, s1) \<and>
      (\<exists>n b. Unload_nmethod_caches n b False \<in> set (new_events example_registered s1)) \<and>
      unlink example_runtime True example_registered
        = unlink example_runtime True (leave_and_refill example_runtime s1) \<and>
      ZNMethodUnlinkTask_run example_runtime True (leave_and_refill example_runtime s1) = Inr (True, s') \<and>
      unlink_retries example_runtime True example_registered (leave_and_refill example_runtime s1) \<and>
      unlink example_runtime True example_registered = Some (Inr s')"
proof -
  have "case ZNMethodUnlinkTask_run example_runtime True example_registered of
          Inr (ok, s1) \<Rightarrow> \<not> ok \<and>
            (case ZNMethodUnlinkTask_run example_runtime True (leave_and_refill example_runtime s1) of
               Inr (ok', s') \<Rightarrow> ok' | Inl err \<Rightarrow> False)
        | Inl err \<Rightarrow> False"
    by code_simp
  then obtain s1 where
    p1: "ZNMethodUnlinkTask_run example_runtime True example_registered = Inr (False, s1)" and
    c2: "case ZNMethodUnlinkTask_run example_runtime True (leave_and_refill example_runtime s1) of
           Inr (ok', s') \<Rightarrow> ok' | Inl err \<Rightarrow> False"
    by (cases "ZNMethodUnlinkTask_run example_runtime True example_registered") auto
  from c2 obtain s' where
    p2: "ZNMethodUnlinkTask_run example_runtime True (leave_and_refill example_runtime s1) = Inr (True, s')"
    by (cases "ZNMethodUnlinkTask_run example_runtime True (leave_and_refill example_runtime s1)") auto
  have r: "unlink_retries example_runtime True example_registered (leave_and_refill example_runtime s1)"
    using p1 by (rule unlink_retries.retry) (rule unlink_retries.no_retry)
  from unlink_retries_until_success [of example_runtime True example_registered s'] p1 p2 r
  show ?thesis by blast
qed

text \<open>
  C4. After \<^verbatim>\<open>attach_gc_data\<close> the nmethod has a record whose snapshot lists, in the
  order of the relocations, the slot addresses of exactly the immediate oop relocations
  with a non-null value, and whose flag says whether there is a non-immediate oop
  relocation. So an immediate slot that holds null is not in the list, and no address
  of a non-immediate relocation is put there.
\<close>

theorem attach_gc_data_classifies:
  "\<exists>data. gc_data (attach_gc_data nm s) nm = Some data \<and>
     data_oops data = Some
       \<lparr>immediates = map oop_addr
          (filter (\<lambda>r. reloc_type r = oop_type \<and> oop_is_immediate r \<and> oop_value r \<noteq> NULL_oop)
             (relocs (nmethods s nm))),
        has_non_immediates =
          (\<exists>r\<in>set (relocs (nmethods s nm)). reloc_type r = oop_type \<and> \<not> oop_is_immediate r)\<rparr>"
  by (simp add: attach_gc_data_fields find_oop_relocations_eq)

theorem attach_gc_data_classifies_witness:
  "(\<exists>data. gc_data (attach_gc_data 3 example_start) 3 = Some data \<and>
      data_oops data = Some \<lparr>immediates = [], has_non_immediates = True\<rparr>) \<and>
   (\<exists>data. gc_data (attach_gc_data 1 example_start) 1 = Some data \<and>
      data_oops data = Some \<lparr>immediates = [20, 21], has_non_immediates = False\<rparr>)"
  using attach_gc_data_classifies [of 3 example_start] attach_gc_data_classifies [of 1 example_start]
  by (simp add: example_defs NULL_oop_def)

text \<open>
  C5. A state in which nothing is registered and no nmethod has a record satisfies the
  attachment invariant, and \<^verbatim>\<open>register_nmethod\<close>, \<^verbatim>\<open>unregister_nmethod\<close>, the
  visitor, \<^verbatim>\<open>purge\<close> and \<^verbatim>\<open>unlink\<close> keep it. \<^verbatim>\<open>register_nmethod\<close> creates a record
  exactly when the nmethod has none; when it has one, the record stays, with its lock,
  a new snapshot is created and stored in it, and the old snapshot is destroyed.
  \<^verbatim>\<open>unregister_nmethod\<close> destroys the record and leaves the slot empty.
\<close>

theorem attachment_invariant_kept:
  "((\<forall>n. gc_data s n = None) \<and> table s = [] \<longrightarrow> attachment_invariant s) \<and>
   (attachment_invariant s \<longrightarrow>
      attachment_invariant (register_nmethod rt nm s) \<and>
      (\<forall>s'. unregister_nmethod current nm s = Inr s' \<longrightarrow> attachment_invariant s') \<and>
      (\<forall>cl s'. nmethod_oops_do rt nm cl s = Inr s' \<longrightarrow> attachment_invariant s') \<and>
      (\<forall>s'. purge s = Inr s' \<longrightarrow> attachment_invariant s') \<and>
      (\<forall>unloading s'. unlink rt unloading s = Some (Inr s') \<longrightarrow> attachment_invariant s')) \<and>
   count_list (new_events s (register_nmethod rt nm s)) (ZNMethodData_created nm)
     = (if gc_data s nm = None then 1 else 0) \<and>
   (\<forall>data. gc_data s nm = Some data \<longrightarrow>
      (\<exists>snapshot. gc_data (register_nmethod rt nm s) nm = Some (data\<lparr>data_oops := Some snapshot\<rparr>) \<and>
         new_events s (register_nmethod rt nm s) =
           [ZNMethodDataOops_created snapshot, ZNMethodDataOops_destroyed (data_oops data),
            Table_register nm]
           @ (if has_barrier_set_nmethod rt then [BarrierSetNMethod_disarm nm] else []))) \<and>
   (\<forall>s'. unregister_nmethod current nm s = Inr s' \<longrightarrow>
      gc_data s' nm = None \<and> ZNMethodData_destroyed (gc_data s nm) \<in> set (new_events s s'))"
proof -
  have init: "(\<forall>n. gc_data s n = None) \<and> table s = [] \<longrightarrow> attachment_invariant s"
    by (simp add: attachment_invariant_def)
  have kept: "attachment_invariant s \<longrightarrow>
      attachment_invariant (register_nmethod rt nm s) \<and>
      (\<forall>s'. unregister_nmethod current nm s = Inr s' \<longrightarrow> attachment_invariant s') \<and>
      (\<forall>cl s'. nmethod_oops_do rt nm cl s = Inr s' \<longrightarrow> attachment_invariant s') \<and>
      (\<forall>s'. purge s = Inr s' \<longrightarrow> attachment_invariant s') \<and>
      (\<forall>unloading s'. unlink rt unloading s = Some (Inr s') \<longrightarrow> attachment_invariant s')"
  proof (intro impI conjI allI)
    assume inv: "attachment_invariant s"
    show "attachment_invariant (register_nmethod rt nm s)"
      using inv by (rule attachment_invariant_register)
    show "attachment_invariant s'" if "unregister_nmethod current nm s = Inr s'" for s'
      using inv that by (rule attachment_invariant_unregister)
    show "attachment_invariant s'" if "nmethod_oops_do rt nm cl s = Inr s'" for cl s'
      using nmethod_oops_do_frame [OF that] inv
      by (intro attachment_invariant_frame [of s s']) (simp_all add: gc_data_def)
    show "attachment_invariant s'" if "purge s = Inr s'" for s'
      using inv that by (rule attachment_invariant_purge)
    show "attachment_invariant s'" if "unlink rt unloading s = Some (Inr s')" for unloading s'
      using unlink_frame [OF that] inv
      by (intro attachment_invariant_frame [of s s']) simp_all
  qed
  have created: "count_list (new_events s (register_nmethod rt nm s)) (ZNMethodData_created nm)
     = (if gc_data s nm = None then 1 else 0)"
    by (simp add: register_nmethod_new_events split: option.splits)
  have reused: "\<exists>snapshot. gc_data (register_nmethod rt nm s) nm = Some (data\<lparr>data_oops := Some snapshot\<rparr>) \<and>
         new_events s (register_nmethod rt nm s) =
           [ZNMethodDataOops_created snapshot, ZNMethodDataOops_destroyed (data_oops data),
            Table_register nm]
           @ (if has_barrier_set_nmethod rt then [BarrierSetNMethod_disarm nm] else [])"
    if "gc_data s nm = Some data" for data
    using that
    by (cases data) (simp add: register_nmethod_new_events register_nmethod_fields attach_gc_data_fields)
  have destroyed: "gc_data s' nm = None \<and> ZNMethodData_destroyed (gc_data s nm) \<in> set (new_events s s')"
    if "unregister_nmethod current nm s = Inr s'" for s'
  proof -
    from that have own: "owns_CodeCache_lock current"
      by (auto simp: unregister_nmethod_def split: if_splits)
    from unregister_nmethod_locked [OF own, of nm s] that
    show ?thesis by (auto simp: new_events_def)
  qed
  from init kept created reused destroyed show ?thesis by blast
qed

theorem attachment_invariant_kept_witness:
  "(\<forall>n. gc_data example_start n = None) \<and> table example_start = [] \<and>
   attachment_invariant example_start \<and>
   attachment_invariant (register_nmethod example_runtime 1 example_start) \<and>
   count_list (new_events example_start (register_nmethod example_runtime 1 example_start))
     (ZNMethodData_created 1) = 1 \<and>
   attachment_invariant example_registered \<and>
   gc_data example_registered 2 = Some (example_data 2) \<and>
   count_list (new_events example_registered (register_nmethod example_runtime 2 example_registered))
     (ZNMethodData_created 2) = 0 \<and>
   (\<exists>snapshot. gc_data (register_nmethod example_runtime 2 example_registered) 2
        = Some ((example_data 2)\<lparr>data_oops := Some snapshot\<rparr>) \<and>
      new_events example_registered (register_nmethod example_runtime 2 example_registered) =
        [ZNMethodDataOops_created snapshot,
         ZNMethodDataOops_destroyed (Some \<lparr>immediates = [], has_non_immediates = True\<rparr>),
         Table_register 2, BarrierSetNMethod_disarm 2]) \<and>
   attachment_invariant (register_nmethod example_runtime 2 example_registered) \<and>
   (\<exists>s'. unregister_nmethod \<lparr>owns_CodeCache_lock = True, is_Code_cache_sweeper_thread = False\<rparr>
            2 example_registered = Inr s' \<and>
      attachment_invariant s' \<and> gc_data s' 2 = None \<and>
      ZNMethodData_destroyed (Some (example_data 2)) \<in> set (new_events example_registered s')) \<and>
   (\<exists>s'. purge example_registered = Inr s' \<and> attachment_invariant s') \<and>
   (\<exists>s'. unlink example_runtime True example_registered = Some (Inr s') \<and> attachment_invariant s')"
proof -
  let ?current = "\<lparr>owns_CodeCache_lock = True, is_Code_cache_sweeper_thread = False\<rparr>"
  note start = attachment_invariant_kept [of example_start example_runtime 1 ?current]
  note regd = attachment_invariant_kept [of example_registered example_runtime 2 ?current]
  have none: "\<forall>n. gc_data example_start n = None" "table example_start = []"
    by (simp_all add: example_defs gc_data_def)
  have some: "gc_data example_registered 2 = Some (example_data 2)"
    "data_oops (example_data 2) = Some \<lparr>immediates = [], has_non_immediates = True\<rparr>"
    "has_barrier_set_nmethod example_runtime"
    by (simp_all add: example_defs gc_data_def)
  have inv: "attachment_invariant example_registered"
    by (rule example_registered_invariant)
  obtain s1 where s1: "unregister_nmethod ?current 2 example_registered = Inr s1"
    using unregister_nmethod_locked [of ?current 2 example_registered] by auto
  obtain s2 where s2: "purge example_registered = Inr s2"
    using purge_entries [of "table example_registered" "()"
        "ZNMethodTable_nmethods_do_begin example_registered"]
    by (auto simp: purge_def ZNMethodTable_nmethods_do_def Let_def)
  obtain s3 where s3: "unlink example_runtime True example_registered = Some (Inr s3)"
    using example_unlink_returns by blast
  from start none have "attachment_invariant example_start"
    and "attachment_invariant (register_nmethod example_runtime 1 example_start)"
    and "count_list (new_events example_start (register_nmethod example_runtime 1 example_start))
     (ZNMethodData_created 1) = 1"
    by simp_all
  moreover from regd inv some
  have "count_list (new_events example_registered (register_nmethod example_runtime 2 example_registered))
     (ZNMethodData_created 2) = 0"
    and "\<exists>snapshot. gc_data (register_nmethod example_runtime 2 example_registered) 2
        = Some ((example_data 2)\<lparr>data_oops := Some snapshot\<rparr>) \<and>
      new_events example_registered (register_nmethod example_runtime 2 example_registered) =
        [ZNMethodDataOops_created snapshot,
         ZNMethodDataOops_destroyed (Some \<lparr>immediates = [], has_non_immediates = True\<rparr>),
         Table_register 2, BarrierSetNMethod_disarm 2]"
    and "attachment_invariant (register_nmethod example_runtime 2 example_registered)"
    by simp_all
  moreover from regd inv some s1
  have "attachment_invariant s1 \<and> gc_data s1 2 = None \<and>
      ZNMethodData_destroyed (Some (example_data 2)) \<in> set (new_events example_registered s1)"
    by simp
  moreover from regd inv s2 have "attachment_invariant s2" by blast
  moreover from regd inv s3 have "attachment_invariant s3" by blast
  ultimately show ?thesis
    using none inv some(1) s1 s2 s3 by blast
qed

text \<open>
  C6. Without the \<^verbatim>\<open>CodeCache_lock\<close> the call ends in the failed assertion. With it, the
  call returns, and what it did is: wait for the iteration to be done, if and only if
  the caller is the sweeper thread; then remove the nmethod from the table; then destroy
  the record and clear the slot. Afterwards the nmethod is not in the table and has no
  record.
\<close>

theorem unregister_nmethod_protocol:
  "(\<not> owns_CodeCache_lock current \<longrightarrow> unregister_nmethod current nm s = Inl Assertion_failed) \<and>
   (owns_CodeCache_lock current \<longrightarrow>
      (\<exists>s'. unregister_nmethod current nm s = Inr s' \<and>
         trace s' = trace s
           @ (if is_Code_cache_sweeper_thread current then [Wait_until_iteration_done] else [])
           @ [Table_unregister nm, ZNMethodData_destroyed (gc_data s nm)] \<and>
         nm \<notin> set (table s') \<and> gc_data s' nm = None))"
proof (cases "owns_CodeCache_lock current")
  case False
  then show ?thesis by (simp add: unregister_nmethod_def)
next
  case True
  from unregister_nmethod_locked [OF True, of nm s] True show ?thesis by auto
qed

theorem unregister_nmethod_protocol_witness:
  "unregister_nmethod \<lparr>owns_CodeCache_lock = False, is_Code_cache_sweeper_thread = True\<rparr>
      2 example_registered = Inl Assertion_failed \<and>
   (\<exists>s'. unregister_nmethod \<lparr>owns_CodeCache_lock = True, is_Code_cache_sweeper_thread = True\<rparr>
            2 example_registered = Inr s' \<and>
      trace s' = [Wait_until_iteration_done, Table_unregister 2,
                  ZNMethodData_destroyed (Some (example_data 2))] \<and>
      2 \<notin> set (table s') \<and> gc_data s' 2 = None) \<and>
   (\<exists>s'. unregister_nmethod \<lparr>owns_CodeCache_lock = True, is_Code_cache_sweeper_thread = False\<rparr>
            2 example_registered = Inr s' \<and>
      trace s' = [Table_unregister 2, ZNMethodData_destroyed (Some (example_data 2))] \<and>
      2 \<notin> set (table s') \<and> gc_data s' 2 = None)"
proof -
  have reg: "gc_data example_registered 2 = Some (example_data 2)" "trace example_registered = []"
    by (simp_all add: example_defs gc_data_def)
  show ?thesis
    using unregister_nmethod_protocol
        [of "\<lparr>owns_CodeCache_lock = False, is_Code_cache_sweeper_thread = True\<rparr>" 2 example_registered]
      unregister_nmethod_protocol
        [of "\<lparr>owns_CodeCache_lock = True, is_Code_cache_sweeper_thread = True\<rparr>" 2 example_registered]
      unregister_nmethod_protocol
        [of "\<lparr>owns_CodeCache_lock = True, is_Code_cache_sweeper_thread = False\<rparr>" 2 example_registered]
    by (simp add: reg)
qed

text \<open>
  C7. Running the visitor twice on a registered nmethod, where neither the callback nor
  \<^verbatim>\<open>fix_oop_relocations\<close> writes or removes the non-oop word in the slots of the nmethod
  (which is the case when they leave the slots as they are): both runs return, the second
  run does what the first did, on the same slots in the same order, and the record with
  its snapshot is the same before, between and after.
\<close>

theorem nmethod_oops_do_idempotent:
  assumes "gc_data s nm = Some data" and "data_oops data = Some snapshot"
    and "\<forall>p. keeps_sentinel (non_oop_word rt) (slots_of (nmethods s nm) snapshot) (cl p)"
    and "keeps_sentinel (non_oop_word rt) (slots_of (nmethods s nm) snapshot) (fix_relocations rt nm)"
  shows "\<exists>s1 s2. nmethod_oops_do rt nm cl s = Inr s1 \<and> nmethod_oops_do rt nm cl s1 = Inr s2 \<and>
     drop (length (trace s1)) (trace s2) = drop (length (trace s)) (trace s1) \<and>
     gc_data s1 nm = gc_data s nm \<and> gc_data s2 nm = gc_data s nm"
proof -
  let ?w = "non_oop_word rt"
  let ?A = "slots_of (nmethods s nm) snapshot"
  let ?slots = "[oops_begin (nmethods s nm) ..< oops_end (nmethods s nm)] @ immediates snapshot"
  let ?fix = "if has_non_immediates snapshot then [Fix_oop_relocations nm] else []"
  from nmethod_oops_do_stable [OF assms]
  obtain s1 where s1: "nmethod_oops_do rt nm cl s = Inr s1"
    "trace s1 = trace s @ map Do_oop (filter (\<lambda>p. mem s p \<noteq> ?w) ?slots) @ ?fix"
    "\<forall>a\<in>?A. (mem s1 a = ?w) = (mem s a = ?w)"
    "nmethods s1 = nmethods s"
    by blast
  have reg1: "gc_data s1 nm = Some data"
    using assms(1) s1(4) by (simp add: gc_data_def)
  have A1: "slots_of (nmethods s1 nm) snapshot = ?A"
    by (simp add: s1(4))
  from nmethod_oops_do_stable [OF reg1 assms(2), of rt cl] assms(3,4)
  obtain s2 where s2: "nmethod_oops_do rt nm cl s1 = Inr s2"
    "trace s2 = trace s1 @ map Do_oop (filter (\<lambda>p. mem s1 p \<noteq> ?w) ?slots) @ ?fix"
    "nmethods s2 = nmethods s1"
    unfolding A1 s1(4) by blast
  have "set ?slots \<subseteq> ?A"
    by (auto simp: slots_of_def)
  then have same: "filter (\<lambda>p. mem s1 p \<noteq> ?w) ?slots = filter (\<lambda>p. mem s p \<noteq> ?w) ?slots"
    using s1(3) by (intro filter_cong [OF refl]) auto
  have "drop (length (trace s1)) (trace s2) = map Do_oop (filter (\<lambda>p. mem s p \<noteq> ?w) ?slots) @ ?fix"
    unfolding s2(2) same by simp
  moreover have "drop (length (trace s)) (trace s1) = map Do_oop (filter (\<lambda>p. mem s p \<noteq> ?w) ?slots) @ ?fix"
    unfolding s1(2) by simp
  moreover have "gc_data s2 nm = gc_data s nm"
    by (simp add: gc_data_def s2(3) s1(4))
  ultimately show ?thesis
    using s1(1) s2(1) reg1 assms(1) by simp
qed

theorem nmethod_oops_do_idempotent_witness:
  "gc_data example_registered 1 = Some (example_data 1) \<and>
   data_oops (example_data 1) = Some \<lparr>immediates = [20, 21], has_non_immediates = False\<rparr> \<and>
   (\<forall>p. keeps_sentinel (non_oop_word example_runtime)
      (slots_of (nmethods example_registered 1) \<lparr>immediates = [20, 21], has_non_immediates = False\<rparr>)
      (heal_oop example_runtime p)) \<and>
   keeps_sentinel (non_oop_word example_runtime)
      (slots_of (nmethods example_registered 1) \<lparr>immediates = [20, 21], has_non_immediates = False\<rparr>)
      (fix_relocations example_runtime 1) \<and>
   (\<exists>s1 s2. nmethod_oops_do example_runtime 1 (heal_oop example_runtime) example_registered = Inr s1 \<and>
      nmethod_oops_do example_runtime 1 (heal_oop example_runtime) s1 = Inr s2 \<and>
      drop (length (trace s1)) (trace s2) = drop (length (trace example_registered)) (trace s1) \<and>
      gc_data s1 1 = gc_data example_registered 1 \<and> gc_data s2 1 = gc_data example_registered 1)"
proof -
  have reg: "gc_data example_registered 1 = Some (example_data 1)"
    by (simp add: example_defs gc_data_def)
  have snap: "data_oops (example_data 1) = Some \<lparr>immediates = [20, 21], has_non_immediates = False\<rparr>"
    by (simp add: example_defs)
  have keeps: "\<forall>p. keeps_sentinel (non_oop_word example_runtime)
      (slots_of (nmethods example_registered 1) \<lparr>immediates = [20, 21], has_non_immediates = False\<rparr>)
      (heal_oop example_runtime p)"
    by (simp add: keeps_sentinel_def example_runtime_def)
  have fx: "keeps_sentinel (non_oop_word example_runtime)
      (slots_of (nmethods example_registered 1) \<lparr>immediates = [20, 21], has_non_immediates = False\<rparr>)
      (fix_relocations example_runtime 1)"
    by (simp add: keeps_sentinel_def example_runtime_def)
  from nmethod_oops_do_idempotent [OF reg snap keeps fx] reg snap keeps fx
  show ?thesis by blast
qed

text \<open>
  C8. \<^verbatim>\<open>purge\<close> always returns, it cannot fail. An nmethod is made unloaded, and is
  not alive afterwards, exactly when it is in the table, alive and unloading; every
  other nmethod, the table, the oop slots and the inline-cache state are as before.
  With the table holding every entry once, the events are the begin of one iteration,
  one \<^verbatim>\<open>make_unloaded\<close> for each such entry in table order, and the end of the
  iteration: there is no second pass.
\<close>

theorem purge_makes_unloaded:
  "\<exists>s'. purge s = Inr s' \<and>
     (\<forall>n. nmethods s' n =
        (if n \<in> set (table s) \<and> is_alive (nmethods s n) \<and> is_unloading (nmethods s n)
         then (nmethods s n)\<lparr>is_alive := False\<rparr> else nmethods s n)) \<and>
     table s' = table s \<and> mem s' = mem s \<and> ic_state s' = ic_state s \<and>
     (distinct (table s) \<longrightarrow>
        trace s' = trace s @ [Nmethods_do_begin]
          @ map Make_unloaded
              (filter (\<lambda>n. is_alive (nmethods s n) \<and> is_unloading (nmethods s n)) (table s))
          @ [Nmethods_do_end])"
proof -
  from purge_entries [of "table s" "()" "ZNMethodTable_nmethods_do_begin s"]
  show ?thesis
    by (auto simp: purge_def ZNMethodTable_nmethods_do_def Let_def)
qed

theorem purge_makes_unloaded_witness:
  "distinct (table example_registered) \<and>
   (\<exists>s'. purge example_registered = Inr s' \<and>
      trace s' = [Nmethods_do_begin, Make_unloaded 3, Nmethods_do_end] \<and>
      nmethods s' 1 = nmethods example_registered 1 \<and>
      nmethods s' 2 = nmethods example_registered 2 \<and>
      nmethods s' 3 = (nmethods example_registered 3)\<lparr>is_alive := False\<rparr>)"
proof -
  have d: "distinct (table example_registered)"
    by (simp add: example_defs)
  have ex: "table example_registered = [1, 2, 3]" "trace example_registered = []"
    "is_alive (nmethods example_registered 1)" "\<not> is_unloading (nmethods example_registered 1)"
    "is_alive (nmethods example_registered 2)" "\<not> is_unloading (nmethods example_registered 2)"
    "is_alive (nmethods example_registered 3)" "is_unloading (nmethods example_registered 3)"
    by (simp_all add: example_defs)
  from purge_makes_unloaded [of example_registered] d obtain s' where s':
    "purge example_registered = Inr s'"
    "trace s' = trace example_registered @ [Nmethods_do_begin]
       @ map Make_unloaded
           (filter (\<lambda>n. is_alive (nmethods example_registered n) \<and>
              is_unloading (nmethods example_registered n)) (table example_registered))
       @ [Nmethods_do_end]"
    "\<forall>n. nmethods s' n =
        (if n \<in> set (table example_registered) \<and> is_alive (nmethods example_registered n) \<and>
            is_unloading (nmethods example_registered n)
         then (nmethods example_registered n)\<lparr>is_alive := False\<rparr>
         else nmethods example_registered n)"
    by blast
  have "trace s' = [Nmethods_do_begin, Make_unloaded 3, Nmethods_do_end]"
    unfolding s'(2) by (simp add: ex del: One_nat_def)
  moreover have "nmethods s' 1 = nmethods example_registered 1"
    "nmethods s' 2 = nmethods example_registered 2"
    "nmethods s' 3 = (nmethods example_registered 3)\<lparr>is_alive := False\<rparr>"
    using s'(3) by (simp_all add: ex del: One_nat_def)
  ultimately show ?thesis using d s'(1) by blast
qed

text \<open>
  C9. \<^verbatim>\<open>lock_for_nmethod\<close> returns the lock of the nmethod's record when a record is
  attached and null when none is. A record is attached after \<^verbatim>\<open>register_nmethod\<close>, and
  it is the one that was there before, if any, with its lock; none is attached after
  \<^verbatim>\<open>unregister_nmethod\<close>.
\<close>

theorem lock_for_nmethod_result:
  "(gc_data s nm = None \<longrightarrow> lock_for_nmethod s nm = None) \<and>
   (\<forall>data. gc_data s nm = Some data \<longrightarrow>
      lock_for_nmethod s nm = Some (lock data) \<and>
      lock_for_nmethod (register_nmethod rt nm s) nm = Some (lock data)) \<and>
   lock_for_nmethod (register_nmethod rt nm s) nm \<noteq> None \<and>
   (\<forall>s'. unregister_nmethod current nm s = Inr s' \<longrightarrow> lock_for_nmethod s' nm = None)"
  by (auto simp: lock_for_nmethod_def register_nmethod_fields attach_gc_data_fields
      unregister_nmethod_def detach_gc_data_fields Let_def split: option.splits if_splits)

theorem lock_for_nmethod_result_witness:
  "gc_data example_start 2 = None \<and> lock_for_nmethod example_start 2 = None \<and>
   gc_data example_registered 2 = Some (example_data 2) \<and>
   lock_for_nmethod example_registered 2 = Some (Lock_of 2) \<and>
   lock_for_nmethod (register_nmethod example_runtime 2 example_registered) 2 = Some (Lock_of 2) \<and>
   (\<exists>s'. unregister_nmethod \<lparr>owns_CodeCache_lock = True, is_Code_cache_sweeper_thread = False\<rparr>
            2 example_registered = Inr s' \<and>
      lock_for_nmethod s' 2 = None)"
proof -
  let ?current = "\<lparr>owns_CodeCache_lock = True, is_Code_cache_sweeper_thread = False\<rparr>"
  have none: "gc_data example_start 2 = None"
    by (simp add: example_defs gc_data_def)
  have some: "gc_data example_registered 2 = Some (example_data 2)"
    by (simp add: example_defs gc_data_def)
  have lk: "lock (example_data 2) = Lock_of 2"
    by (simp add: example_data_def)
  obtain s' where s': "unregister_nmethod ?current 2 example_registered = Inr s'"
    using unregister_nmethod_locked [of ?current 2 example_registered] by auto
  note a = lock_for_nmethod_result [of example_start 2 example_runtime ?current]
  note b = lock_for_nmethod_result [of example_registered 2 example_runtime ?current]
  from a none have "lock_for_nmethod example_start 2 = None" by blast
  moreover from b some lk have "lock_for_nmethod example_registered 2 = Some (Lock_of 2)"
    and "lock_for_nmethod (register_nmethod example_runtime 2 example_registered) 2 = Some (Lock_of 2)"
    by auto
  moreover from b s' have "lock_for_nmethod s' 2 = None" by blast
  ultimately show ?thesis using none some s' by blast
qed

text \<open>
  C10. When \<^verbatim>\<open>do_nmethod\<close> sets the failure flag, the nmethod is alive and not unloading
  and its \<^verbatim>\<open>unload_nmethod_caches\<close> has just returned false; so the unloading branch
  never sets it. When every alive entry of the table is unloading, \<^verbatim>\<open>unlink\<close> returns
  after the first pass, which succeeds: between the begin and the end of the iteration
  it locks, flushes the dependencies of, unlinks and unlocks every alive entry, and
  there is no refill.
\<close>

theorem unloading_never_fails:
  "(\<forall>c' s'. ZNMethodUnlinkClosure_do_nmethod rt nm c s = Inr (c', s') \<and> failed c' \<and> \<not> failed c \<longrightarrow>
      is_alive (nmethods s nm) \<and> \<not> is_unloading (nmethods s nm) \<and>
      \<not> fst (unload_caches rt nm (unloading_occurred c) (ic_state s)) \<and>
      Unload_nmethod_caches nm (unloading_occurred c) False \<in> set (new_events s s')) \<and>
   ((\<forall>n\<in>set (table s). is_alive (nmethods s n) \<longrightarrow> is_unloading (nmethods s n)) \<longrightarrow>
      (\<exists>s'. unlink rt unloading s = Some (Inr s') \<and>
         ZNMethodUnlinkTask_run rt unloading s = Inr (True, s') \<and>
         new_events s s' = [Nmethods_do_begin]
           @ concat (map (\<lambda>n.
               if is_alive (nmethods s n)
               then [ZLocker_lock (lock_for_nmethod s n), Flush_dependencies n False,
                     Unlink_from_method n False, ZLocker_unlock (lock_for_nmethod s n)]
               else []) (table s))
           @ [Nmethods_do_end]))"
proof (intro conjI allI impI)
  fix c' s'
  assume a: "ZNMethodUnlinkClosure_do_nmethod rt nm c s = Inr (c', s') \<and> failed c' \<and> \<not> failed c"
  then have run: "ZNMethodUnlinkClosure_do_nmethod rt nm c s = Inr (c', s')"
    and f: "failed c'" "\<not> failed c" by simp_all
  have alive: "is_alive (nmethods s nm)"
    using do_nmethod_skipped [of c s nm rt] run f by auto
  have live: "\<not> is_unloading (nmethods s nm)"
    using do_nmethod_unloading [of c s nm rt] run f alive by auto
  let ?s1 = "emit (ZLocker_lock (lock_for_nmethod s nm)) s"
  from run f alive live obtain s2 where s2: "nmethod_oops_do rt nm (heal_oop rt) ?s1 = Inr s2"
    by (auto simp: ZNMethodUnlinkClosure_do_nmethod_def Let_def split: sum.splits)
  from nmethod_oops_do_Inr [OF s2] obtain data snapshot
    where reg: "gc_data s nm = Some data" "data_oops data = Some snapshot"
    by auto
  from nmethod_oops_do_frame [OF s2] obtain evs
    where evs: "trace s2 = trace s @ ZLocker_lock (lock_for_nmethod s nm) # evs"
    by auto
  from do_nmethod_live [OF f(2) alive live reg, of rt] s2 run
  have c': "c' = (if fst (unload_caches rt nm (unloading_occurred c) (ic_state s)) then c
            else c\<lparr>failed := True\<rparr>)"
    and tr: "trace s' = trace s2
       @ (if has_barrier_set_nmethod rt then [BarrierSetNMethod_disarm nm] else [])
       @ [Unload_nmethod_caches nm (unloading_occurred c)
            (fst (unload_caches rt nm (unloading_occurred c) (ic_state s))),
          ZLocker_unlock (lock_for_nmethod s nm)]"
    by auto
  from c' f have no: "\<not> fst (unload_caches rt nm (unloading_occurred c) (ic_state s))"
    by (auto split: if_splits)
  have "Unload_nmethod_caches nm (unloading_occurred c) False \<in> set (new_events s s')"
    unfolding new_events_def tr evs using no by simp
  with alive live no
  show "is_alive (nmethods s nm)" and "\<not> is_unloading (nmethods s nm)"
    and "\<not> fst (unload_caches rt nm (unloading_occurred c) (ic_state s))"
    and "Unload_nmethod_caches nm (unloading_occurred c) False \<in> set (new_events s s')"
    by simp_all
next
  assume a: "\<forall>n\<in>set (table s). is_alive (nmethods s n) \<longrightarrow> is_unloading (nmethods s n)"
  let ?s0 = "ZNMethodTable_nmethods_do_begin s"
  let ?c0 = "\<lparr>unloading_occurred = unloading, failed = False\<rparr>"
  let ?mid = "concat (map (\<lambda>n.
               if is_alive (nmethods s n)
               then [ZLocker_lock (lock_for_nmethod s n), Flush_dependencies n False,
                     Unlink_from_method n False, ZLocker_unlock (lock_for_nmethod s n)]
               else []) (table s))"
  have same: "lock_for_nmethod ?s0 n = lock_for_nmethod s n" for n
    by (simp add: lock_for_nmethod_def gc_data_def)
  have "\<forall>n\<in>set (table s). is_alive (nmethods ?s0 n) \<longrightarrow> is_unloading (nmethods ?s0 n)"
    using a by simp
  from unloading_entries [OF this, of ?c0 rt]
  have "\<exists>s'. ZNMethodUnlinkTask_run rt unloading s = Inr (True, s') \<and>
      trace s' = trace s @ [Nmethods_do_begin] @ ?mid @ [Nmethods_do_end]"
    by (simp add: ZNMethodUnlinkTask_run_def ZNMethodTable_nmethods_do_def Let_def same
        cong: if_cong)
  then obtain s' where s': "ZNMethodUnlinkTask_run rt unloading s = Inr (True, s')"
    "trace s' = trace s @ [Nmethods_do_begin] @ ?mid @ [Nmethods_do_end]"
    by blast
  have "unlink rt unloading s = Some (Inr s')"
    using s'(1) by (subst unlink.simps) simp
  moreover have "new_events s s' = [Nmethods_do_begin] @ ?mid @ [Nmethods_do_end]"
    by (simp add: new_events_def s'(2))
  ultimately show "\<exists>s'. unlink rt unloading s = Some (Inr s') \<and>
         ZNMethodUnlinkTask_run rt unloading s = Inr (True, s') \<and>
         new_events s s' = [Nmethods_do_begin] @ ?mid @ [Nmethods_do_end]"
    using s'(1) by blast
qed

theorem unloading_never_fails_witness:
  "(\<exists>c' s'. ZNMethodUnlinkClosure_do_nmethod example_runtime 1
        \<lparr>unloading_occurred = True, failed = False\<rparr> (example_registered\<lparr>ic_state := 0\<rparr>)
        = Inr (c', s') \<and>
      failed c' \<and>
      is_alive (nmethods (example_registered\<lparr>ic_state := 0\<rparr>) 1) \<and>
      \<not> is_unloading (nmethods (example_registered\<lparr>ic_state := 0\<rparr>) 1) \<and>
      Unload_nmethod_caches 1 True False \<in> set (new_events (example_registered\<lparr>ic_state := 0\<rparr>) s')) \<and>
   table example_unloading = [1, 2, 3] \<and>
   \<not> is_alive (nmethods example_unloading 1) \<and>
   is_alive (nmethods example_unloading 2) \<and> is_unloading (nmethods example_unloading 2) \<and>
   is_alive (nmethods example_unloading 3) \<and> is_unloading (nmethods example_unloading 3) \<and>
   (\<exists>s'. unlink example_runtime True example_unloading = Some (Inr s') \<and>
      ZNMethodUnlinkTask_run example_runtime True example_unloading = Inr (True, s') \<and>
      new_events example_unloading s' =
        [Nmethods_do_begin,
         ZLocker_lock (Some (Lock_of 2)), Flush_dependencies 2 False,
         Unlink_from_method 2 False, ZLocker_unlock (Some (Lock_of 2)),
         ZLocker_lock (Some (Lock_of 3)), Flush_dependencies 3 False,
         Unlink_from_method 3 False, ZLocker_unlock (Some (Lock_of 3)),
         Nmethods_do_end])"
proof -
  let ?c = "\<lparr>unloading_occurred = True, failed = False\<rparr>"
  let ?s = "example_registered\<lparr>ic_state := 0\<rparr>"
  have "case ZNMethodUnlinkClosure_do_nmethod example_runtime 1 ?c ?s of
          Inr (c', s') \<Rightarrow> failed c' | Inl err \<Rightarrow> False"
    by code_simp
  then obtain c' s' where run:
    "ZNMethodUnlinkClosure_do_nmethod example_runtime 1 ?c ?s = Inr (c', s')" "failed c'"
    by (auto split: sum.splits)
  from unloading_never_fails [of example_runtime 1 ?c ?s True] run
  have first: "is_alive (nmethods ?s 1) \<and> \<not> is_unloading (nmethods ?s 1) \<and>
      Unload_nmethod_caches 1 True False \<in> set (new_events ?s s')"
    by simp
  have ex: "table example_unloading = [1, 2, 3]"
    "\<not> is_alive (nmethods example_unloading 1)"
    "is_alive (nmethods example_unloading 2)" "is_unloading (nmethods example_unloading 2)"
    "is_alive (nmethods example_unloading 3)" "is_unloading (nmethods example_unloading 3)"
    by (simp_all add: example_defs)
  have locks: "lock_for_nmethod example_unloading 2 = Some (Lock_of 2)"
    "lock_for_nmethod example_unloading 3 = Some (Lock_of 3)"
    by (simp_all add: example_defs lock_for_nmethod_def gc_data_def)
  have hyp: "\<forall>n\<in>set (table example_unloading).
      is_alive (nmethods example_unloading n) \<longrightarrow> is_unloading (nmethods example_unloading n)"
    by (simp add: ex del: One_nat_def)
  from unloading_never_fails [of example_runtime 1 ?c example_unloading True] hyp
  have "\<exists>s'. unlink example_runtime True example_unloading = Some (Inr s') \<and>
      ZNMethodUnlinkTask_run example_runtime True example_unloading = Inr (True, s') \<and>
      new_events example_unloading s' =
        [Nmethods_do_begin,
         ZLocker_lock (Some (Lock_of 2)), Flush_dependencies 2 False,
         Unlink_from_method 2 False, ZLocker_unlock (Some (Lock_of 2)),
         ZLocker_lock (Some (Lock_of 3)), Flush_dependencies 3 False,
         Unlink_from_method 3 False, ZLocker_unlock (Some (Lock_of 3)),
         Nmethods_do_end]"
    by (simp add: ex locks del: One_nat_def)
  with run first ex show ?thesis by blast
qed

end
